theory Spec2Isabelle
  imports Main "HOL-Library.AList"
begin

section \<open>Python values used by the address book\<close>

text \<open>
  A Python \<open>str\<close> is a sequence of Unicode code points. The model writes it as a
  \<open>string\<close>; a \<open>char\<close> stands for the code point of the same number, so the model
  covers the strings whose characters lie in U+0000..U+00FF. On that range
  \<open>str.isdigit\<close> accepts the ten ASCII digits and the superscript digits
  U+00B2, U+00B3 and U+00B9 (Numeric_Type=Digit); the \<open>\d\<close> of the \<open>re\<close> module
  (general category Nd) and \<open>int()\<close> accept the ASCII digits only.
\<close>

datatype error = ValueError string | KeyError | IndexError | OverflowError

type_synonym 'a result = "error + 'a"

definition ascii_digit :: "char \<Rightarrow> bool" where
  "ascii_digit c = (48 \<le> (of_char c :: nat) \<and> (of_char c :: nat) \<le> 57)"

definition isdigit_char :: "char \<Rightarrow> bool" where
  "isdigit_char c =
     (ascii_digit c \<or> (of_char c :: nat) = 178 \<or> (of_char c :: nat) = 179 \<or> (of_char c :: nat) = 185)"

text \<open>\<open>str.isdigit()\<close>: every character is a digit and there is at least one.\<close>

definition isdigit :: "string \<Rightarrow> bool" where
  "isdigit s = (s \<noteq> [] \<and> list_all isdigit_char s)"

definition digit_char :: "int \<Rightarrow> char" where
  "digit_char n = char_of (48 + nat n)"

definition digit_val :: "char \<Rightarrow> int" where
  "digit_val c = int (of_char c) - 48"

text \<open>\<open>'%0wd' % n\<close> for \<open>0 \<le> n < 10 ^ w\<close>: exactly \<open>w\<close> decimal digits.\<close>

fun zfill :: "nat \<Rightarrow> int \<Rightarrow> string" where
  "zfill 0 n = []"
| "zfill (Suc w) n = zfill w (n div 10) @ [digit_char (n mod 10)]"

text \<open>\<open>str(n)\<close> for \<open>n \<ge> 0\<close>.\<close>

fun str_nat :: "nat \<Rightarrow> string" where
  "str_nat n = (if n < 10 then [digit_char (int n)] else str_nat (n div 10) @ [digit_char (int (n mod 10))])"

declare str_nat.simps [simp del]

text \<open>\<open>sep.join(xs)\<close> and \<open>s.split(sep)\<close> for a one-character separator.\<close>

fun join :: "string \<Rightarrow> string list \<Rightarrow> string" where
  "join sep [] = []"
| "join sep [x] = x"
| "join sep (x # y # ys) = x @ sep @ join sep (y # ys)"

fun split :: "char \<Rightarrow> string \<Rightarrow> string list" where
  "split sep [] = [[]]"
| "split sep (c # cs) =
     (if c = sep then [] # split sep cs
      else (case split sep cs of w # ws \<Rightarrow> (c # w) # ws | [] \<Rightarrow> [[c]]))"

section \<open>Dates (module datetime)\<close>

record date =
  year :: int
  month :: int
  day :: int

record datetime = date +
  hour :: int
  minute :: int
  second :: int
  microsecond :: int

definition is_leap :: "int \<Rightarrow> bool" where
  "is_leap y = (y mod 4 = 0 \<and> (y mod 100 \<noteq> 0 \<or> y mod 400 = 0))"

definition DAYS_IN_MONTH :: "int list" where
  "DAYS_IN_MONTH = [-1, 31, 28, 31, 30, 31, 30, 31, 31, 30, 31, 30, 31]"

definition DAYS_BEFORE_MONTH :: "int list" where
  "DAYS_BEFORE_MONTH = [-1, 0, 31, 59, 90, 120, 151, 181, 212, 243, 273, 304, 334]"

definition days_before_year :: "int \<Rightarrow> int" where
  "days_before_year y = (let y1 = y - 1 in y1 * 365 + y1 div 4 - y1 div 100 + y1 div 400)"

definition days_in_month :: "int \<Rightarrow> int \<Rightarrow> int" where
  "days_in_month y m = (if m = 2 \<and> is_leap y then 29 else DAYS_IN_MONTH ! nat m)"

definition days_before_month :: "int \<Rightarrow> int \<Rightarrow> int" where
  "days_before_month y m = DAYS_BEFORE_MONTH ! nat m + (if m > 2 \<and> is_leap y then 1 else 0)"

definition ymd2ord :: "int \<Rightarrow> int \<Rightarrow> int \<Rightarrow> int" where
  "ymd2ord y m d = days_before_year y + days_before_month y m + d"

definition MAXORDINAL :: int where
  "MAXORDINAL = 3652059"

text \<open>
  The range check of the \<open>date\<close> constructor; \<open>None\<close> when the fields are a date.
  The messages are those of CPython's C implementation up to release 3.13.
\<close>

definition check_date_fields :: "int \<Rightarrow> int \<Rightarrow> int \<Rightarrow> error option" where
  "check_date_fields y m d =
     (if y < 1 \<or> 9999 < y then Some (ValueError (''year '' @ str_nat (nat y) @ '' is out of range''))
      else if m < 1 \<or> 12 < m then Some (ValueError ''month must be in 1..12'')
      else if d < 1 \<or> days_in_month y m < d then Some (ValueError ''day is out of range for month'')
      else None)"

definition valid_date :: "'a date_scheme \<Rightarrow> bool" where
  "valid_date d = (check_date_fields (year d) (month d) (day d) = None)"

definition toordinal :: "'a date_scheme \<Rightarrow> int" where
  "toordinal d = ymd2ord (year d) (month d) (day d)"

definition weekday :: "'a date_scheme \<Rightarrow> int" where
  "weekday d = (toordinal d + 6) mod 7"

text \<open>\<open>d.replace(year=y)\<close>, for a \<open>date\<close> and for a \<open>datetime\<close>.\<close>

definition replace_year :: "'a date_scheme \<Rightarrow> int \<Rightarrow> 'a date_scheme result" where
  "replace_year d y =
     (case check_date_fields y (month d) (day d) of
        Some e \<Rightarrow> Inl e
      | None \<Rightarrow> Inr (d\<lparr>year := y\<rparr>))"

text \<open>\<open>a < b\<close> on dates compares (year, month, day).\<close>

definition date_lt :: "date \<Rightarrow> date \<Rightarrow> bool" where
  "date_lt a b =
     (year a < year b \<or> (year a = year b \<and> (month a < month b \<or> (month a = month b \<and> day a < day b))))"

text \<open>\<open>datetime.date()\<close>.\<close>

definition date_of :: "datetime \<Rightarrow> date" where
  "date_of dt = \<lparr>year = year dt, month = month dt, day = day dt\<rparr>"

text \<open>\<open>date.fromordinal\<close>, following \<open>_ord2ymd\<close>.\<close>

definition ord2ymd :: "int \<Rightarrow> date" where
  "ord2ymd n0 =
     (let n = n0 - 1;
          n400 = n div 146097; n = n mod 146097;
          y = n400 * 400 + 1;
          n100 = n div 36524; n = n mod 36524;
          n4 = n div 1461; n = n mod 1461;
          n1 = n div 365; n = n mod 365;
          y = y + n100 * 100 + n4 * 4 + n1
      in if n1 = 4 \<or> n100 = 4 then \<lparr>year = y - 1, month = 12, day = 31\<rparr>
         else
           let leapyear = (n1 = 3 \<and> (n4 \<noteq> 24 \<or> n100 = 3));
               m = (n + 50) div 32;
               preceding = DAYS_BEFORE_MONTH ! nat m + (if m > 2 \<and> leapyear then 1 else 0)
           in if preceding > n
              then let m = m - 1;
                       preceding = preceding - (DAYS_IN_MONTH ! nat m + (if m = 2 \<and> leapyear then 1 else 0))
                   in \<lparr>year = y, month = m, day = n - preceding + 1\<rparr>
              else \<lparr>year = y, month = m, day = n - preceding + 1\<rparr>)"

text \<open>\<open>d + timedelta(days=k)\<close>.\<close>

definition date_add_days :: "date \<Rightarrow> int \<Rightarrow> date result" where
  "date_add_days d k =
     (let o1 = toordinal d + k
      in if 0 < o1 \<and> o1 \<le> MAXORDINAL then Inr (ord2ymd o1) else Inl OverflowError)"

text \<open>
  \<open>d.strftime(fmt)\<close> for the directives the program uses: \<open>%d\<close>, \<open>%m\<close> and \<open>%Y\<close>;
  every other character is copied. The C library pads \<open>%Y\<close> to four digits on some
  platforms and prints the bare number on others (glibc); CPython pads it itself in its
  newer releases. The flag \<open>norm\<close> says which: \<open>True\<close> for four digits.
\<close>

fun strftime :: "bool \<Rightarrow> string \<Rightarrow> 'a date_scheme \<Rightarrow> string" where
  "strftime norm (c # e # fmt) d =
     (if c = CHR ''%'' \<and> e = CHR ''d'' then zfill 2 (day d) @ strftime norm fmt d
      else if c = CHR ''%'' \<and> e = CHR ''m'' then zfill 2 (month d) @ strftime norm fmt d
      else if c = CHR ''%'' \<and> e = CHR ''Y''
      then (if norm then zfill 4 (year d) else str_nat (nat (year d))) @ strftime norm fmt d
      else c # strftime norm (e # fmt) d)"
| "strftime norm fmt d = fmt"

text \<open>\<open>str(dt)\<close> of a \<open>datetime\<close>: \<open>dt.isoformat(sep=' ')\<close>.\<close>

definition datetime_str :: "datetime \<Rightarrow> string" where
  "datetime_str dt =
     zfill 4 (year dt) @ ''-'' @ zfill 2 (month dt) @ ''-'' @ zfill 2 (day dt) @ '' '' @
     zfill 2 (hour dt) @ '':'' @ zfill 2 (minute dt) @ '':'' @ zfill 2 (second dt) @
     (if microsecond dt \<noteq> 0 then ''.'' @ zfill 6 (microsecond dt) else [])"

text \<open>
  \<open>datetime.strptime(s, "%d.%m.%Y")\<close>. The module \<open>_strptime\<close> turns the format into the
  regular expression
  \<^verbatim>\<open>(?P<d>3[0-1]|[1-2]\d|0[1-9]|[1-9]| [1-9])\.(?P<m>1[0-2]|0[1-9]|[1-9])\.(?P<Y>\d\d\d\d)\<close>,
  matches it at the start of the string, raises \<open>ValueError\<close> when it does not match or
  when text is left over, converts the groups with \<open>int()\<close> and builds the date, which
  raises \<open>ValueError\<close> for a day the month does not have and for the year 0.
  Each group is a function from the text to the list of its ways to match, in the order
  the alternatives are tried: the value read and the text that is left.
\<close>

definition nonzero_digit :: "char \<Rightarrow> bool" where
  "nonzero_digit c = (49 \<le> (of_char c :: nat) \<and> (of_char c :: nat) \<le> 57)"

definition re_d :: "string \<Rightarrow> (int \<times> string) list" where
  "re_d s =
     (case s of
        a # b # r \<Rightarrow>
          (if a = CHR ''3'' \<and> (b = CHR ''0'' \<or> b = CHR ''1'') then [(30 + digit_val b, r)] else []) @
          (if (a = CHR ''1'' \<or> a = CHR ''2'') \<and> ascii_digit b
           then [(10 * digit_val a + digit_val b, r)] else []) @
          (if a = CHR ''0'' \<and> nonzero_digit b then [(digit_val b, r)] else [])
      | _ \<Rightarrow> []) @
     (case s of a # r \<Rightarrow> (if nonzero_digit a then [(digit_val a, r)] else []) | _ \<Rightarrow> []) @
     (case s of
        a # b # r \<Rightarrow> (if a = CHR '' '' \<and> nonzero_digit b then [(digit_val b, r)] else [])
      | _ \<Rightarrow> [])"

definition re_m :: "string \<Rightarrow> (int \<times> string) list" where
  "re_m s =
     (case s of
        a # b # r \<Rightarrow>
          (if a = CHR ''1'' \<and> (b = CHR ''0'' \<or> b = CHR ''1'' \<or> b = CHR ''2'')
           then [(10 + digit_val b, r)] else []) @
          (if a = CHR ''0'' \<and> nonzero_digit b then [(digit_val b, r)] else [])
      | _ \<Rightarrow> []) @
     (case s of a # r \<Rightarrow> (if nonzero_digit a then [(digit_val a, r)] else []) | _ \<Rightarrow> [])"

definition re_Y :: "string \<Rightarrow> (int \<times> string) list" where
  "re_Y s =
     (case s of
        a # b # c # d # r \<Rightarrow>
          (if ascii_digit a \<and> ascii_digit b \<and> ascii_digit c \<and> ascii_digit d
           then [(1000 * digit_val a + 100 * digit_val b + 10 * digit_val c + digit_val d, r)]
           else [])
      | _ \<Rightarrow> [])"

definition re_lit :: "char \<Rightarrow> string \<Rightarrow> string list" where
  "re_lit c s = (case s of a # r \<Rightarrow> (if a = c then [r] else []) | [] \<Rightarrow> [])"

definition re_d_m_Y :: "string \<Rightarrow> ((int \<times> int \<times> int) \<times> string) list" where
  "re_d_m_Y s =
     [((d, m, y), r5).
        (d, r1) \<leftarrow> re_d s, r2 \<leftarrow> re_lit CHR ''.'' r1,
        (m, r3) \<leftarrow> re_m r2, r4 \<leftarrow> re_lit CHR ''.'' r3,
        (y, r5) \<leftarrow> re_Y r4]"

text \<open>
  \<open>None\<close> stands for the \<open>ValueError\<close> of \<open>strptime\<close>; its only caller replaces the
  message.
\<close>

definition strptime_d_m_Y :: "string \<Rightarrow> datetime option" where
  "strptime_d_m_Y s =
     (case re_d_m_Y s of
        [] \<Rightarrow> None
      | ((d, m, y), rest) # _ \<Rightarrow>
          if rest \<noteq> [] then None
          else (case check_date_fields y m d of
                  Some e \<Rightarrow> None
                | None \<Rightarrow> Some \<lparr>year = y, month = m, day = d,
                                hour = 0, minute = 0, second = 0, microsecond = 0\<rparr>))"

section \<open>Fields\<close>

record 'a Field =
  fvalue :: 'a

type_synonym Name = "string Field"
type_synonym Phone = "string Field"
type_synonym Birthday = "datetime Field"

text \<open>\<open>Field.__str__\<close> is \<open>str(self.value)\<close>: the string itself for a name or a phone, the
  ISO form of the \<open>datetime\<close> for a birthday.\<close>

definition Field_str :: "string Field \<Rightarrow> string" where
  "Field_str f = fvalue f"

definition Birthday_str :: "Birthday \<Rightarrow> string" where
  "Birthday_str b = datetime_str (fvalue b)"

definition Name_init :: "string \<Rightarrow> Name result" where
  "Name_init n = (if n = [] then Inl (ValueError ''Name cannot be empty'') else Inr \<lparr>fvalue = n\<rparr>)"

definition Phone_init :: "string \<Rightarrow> Phone result" where
  "Phone_init phone =
     (if \<not> isdigit phone \<or> length phone \<noteq> 10
      then Inl (ValueError ''Invalid phone number format. Must contain 10 digits.'')
      else Inr \<lparr>fvalue = phone\<rparr>)"

definition Birthday_init :: "string \<Rightarrow> Birthday result" where
  "Birthday_init v =
     (case strptime_d_m_Y v of
        None \<Rightarrow> Inl (ValueError ''Invalid date format. Use DD.MM.YYYY'')
      | Some dt \<Rightarrow> Inr \<lparr>fvalue = dt\<rparr>)"

section \<open>Record\<close>

record Record =
  name :: Name
  phones :: "Phone list"
  birthday :: "Birthday option"

definition Record_init :: "string \<Rightarrow> Record result" where
  "Record_init n =
     (case Name_init n of
        Inl e \<Rightarrow> Inl e
      | Inr nm \<Rightarrow> Inr \<lparr>name = nm, phones = [], birthday = None\<rparr>)"

definition add_phone :: "Record \<Rightarrow> string \<Rightarrow> Record result" where
  "add_phone r phone =
     (case Phone_init phone of
        Inl e \<Rightarrow> Inl e
      | Inr p \<Rightarrow> Inr (r\<lparr>phones := phones r @ [p]\<rparr>))"

definition remove_phone :: "Record \<Rightarrow> string \<Rightarrow> Record" where
  "remove_phone r phone = r\<lparr>phones := filter (\<lambda>p. Field_str p \<noteq> phone) (phones r)\<rparr>"

text \<open>The loop of \<open>edit_phone\<close> assigns \<open>phone.value = new_phone\<close> at every match; nothing
  in it builds a \<open>Phone\<close>.\<close>

fun edit_phone_loop :: "Phone list \<Rightarrow> string \<Rightarrow> string \<Rightarrow> Phone list" where
  "edit_phone_loop [] old_phone new_phone = []"
| "edit_phone_loop (p # ps) old_phone new_phone =
     (if Field_str p = old_phone then p\<lparr>fvalue := new_phone\<rparr> else p)
       # edit_phone_loop ps old_phone new_phone"

definition edit_phone :: "Record \<Rightarrow> string \<Rightarrow> string \<Rightarrow> Record" where
  "edit_phone r old_phone new_phone = r\<lparr>phones := edit_phone_loop (phones r) old_phone new_phone\<rparr>"

fun find_phone_loop :: "Phone list \<Rightarrow> string \<Rightarrow> string option" where
  "find_phone_loop [] phone = None"
| "find_phone_loop (p # ps) phone =
     (if Field_str p = phone then Some (fvalue p) else find_phone_loop ps phone)"

definition find_phone :: "Record \<Rightarrow> string \<Rightarrow> string option" where
  "find_phone r phone = find_phone_loop (phones r) phone"

definition add_birthday :: "Record \<Rightarrow> string \<Rightarrow> Record result" where
  "add_birthday r b =
     (case Birthday_init b of
        Inl e \<Rightarrow> Inl e
      | Inr bd \<Rightarrow> Inr (r\<lparr>birthday := Some bd\<rparr>))"

definition Record_str :: "bool \<Rightarrow> Record \<Rightarrow> string" where
  "Record_str norm r =
     ''Contact name: '' @ fvalue (name r) @ '', phones: '' @
     join ''; '' (map Field_str (phones r)) @ '', Birthday: '' @
     (case birthday r of
        Some b \<Rightarrow> strftime norm ''%d %m %Y'' (fvalue b)
      | None \<Rightarrow> ''None'')"

section \<open>AddressBook\<close>

text \<open>
  The dictionary of the book, in insertion order: storing under a key that is present
  replaces the value where it stands, storing under a new key appends.
\<close>

type_synonym AddressBook = "(string \<times> Record) list"

definition add_record :: "AddressBook \<Rightarrow> Record \<Rightarrow> AddressBook" where
  "add_record book r = AList.update (fvalue (name r)) r book"

definition find_book :: "AddressBook \<Rightarrow> string \<Rightarrow> Record option" where
  "find_book book n = map_of book n"

definition delete_book :: "AddressBook \<Rightarrow> string \<Rightarrow> AddressBook" where
  "delete_book book n = (if map_of book n \<noteq> None then AList.delete n book else book)"

record congratulation =
  c_name :: string
  congratulation_date :: string

text \<open>The loop of \<open>get_upcoming_birthdays\<close> over \<open>self.data.values()\<close>; \<open>today\<close> is what
  \<open>datetime.today().date()\<close> returned. An exception ends the loop and the call.\<close>

fun upcoming_loop ::
  "bool \<Rightarrow> date \<Rightarrow> Record list \<Rightarrow> congratulation list \<Rightarrow> congratulation list result" where
  "upcoming_loop norm today [] upcoming_birthdays = Inr upcoming_birthdays"
| "upcoming_loop norm today (r # rs) upcoming_birthdays =
     (case birthday r of
        None \<Rightarrow> upcoming_loop norm today rs upcoming_birthdays
      | Some b \<Rightarrow>
          (case replace_year (fvalue b) (year today) of
             Inl e \<Rightarrow> Inl e
           | Inr dt \<Rightarrow>
               (case (if date_lt (date_of dt) today
                      then replace_year (date_of dt) (year today + 1)
                      else Inr (date_of dt)) of
                  Inl e \<Rightarrow> Inl e
                | Inr birthday_this_year \<Rightarrow>
                    (let days_until_birthday = toordinal birthday_this_year - toordinal today
                     in if 0 \<le> days_until_birthday \<and> days_until_birthday \<le> 7
                        then
                          (case date_add_days today
                                  (if weekday birthday_this_year = 5 \<or> weekday birthday_this_year = 6
                                   then days_until_birthday + (7 - weekday birthday_this_year)
                                   else days_until_birthday) of
                             Inl e \<Rightarrow> Inl e
                           | Inr cdate \<Rightarrow>
                               upcoming_loop norm today rs
                                 (upcoming_birthdays @
                                   [\<lparr>c_name = fvalue (name r),
                                     congratulation_date =
                                       strftime norm ''%Y.%m.%d'' cdate\<rparr>]))
                        else upcoming_loop norm today rs upcoming_birthdays))))"

definition get_upcoming_birthdays :: "bool \<Rightarrow> date \<Rightarrow> AddressBook \<Rightarrow> congratulation list result" where
  "get_upcoming_birthdays norm today book = upcoming_loop norm today (map snd book) []"

section \<open>Command handlers\<close>

text \<open>
  A handler returns its string, or raises; the book it was given is mutated in place, so
  the model returns the book as the call leaves it in both cases.
\<close>

type_synonym outcome = "string result \<times> AddressBook"

definition not_found :: string where
  "not_found = ''This name is not entered in the phone book.''"

text \<open>The decorator: \<open>ValueError\<close> becomes its message, \<open>KeyError\<close> the fixed sentence,
  every other exception passes through.\<close>

definition handle_errors :: "('x \<Rightarrow> outcome) \<Rightarrow> 'x \<Rightarrow> outcome" where
  "handle_errors func x =
     (case func x of
        (Inr s, book) \<Rightarrow> (Inr s, book)
      | (Inl (ValueError msg), book) \<Rightarrow> (Inr msg, book)
      | (Inl KeyError, book) \<Rightarrow> (Inr not_found, book)
      | (Inl e, book) \<Rightarrow> (Inl e, book))"

text \<open>\<open>[Phone(p) for p in ps]\<close>: the first phone that is refused raises.\<close>

fun Phone_list :: "string list \<Rightarrow> Phone list result" where
  "Phone_list [] = Inr []"
| "Phone_list (p # ps) =
     (case Phone_init p of
        Inl e \<Rightarrow> Inl e
      | Inr x \<Rightarrow> (case Phone_list ps of Inl e \<Rightarrow> Inl e | Inr xs \<Rightarrow> Inr (x # xs)))"

text \<open>\<open>name, phone, *_ = args\<close> raises \<open>ValueError\<close> on fewer than two arguments. The
  record is stored in the book before the phone is added to it.\<close>

definition add_contact_body :: "string list \<times> AddressBook \<Rightarrow> outcome" where
  "add_contact_body = (\<lambda>(args, book).
     (case args of
        n # phone # _ \<Rightarrow>
          (case (case find_book book n of
                   None \<Rightarrow>
                     (case Record_init n of
                        Inl e \<Rightarrow> Inl e
                      | Inr r \<Rightarrow> Inr (r, add_record book r, ''Contact added.''))
                 | Some r \<Rightarrow> Inr (r, book, ''Contact updated.'')) of
             Inl e \<Rightarrow> (Inl e, book)
           | Inr (r, book1, message) \<Rightarrow>
               if phone \<noteq> []
               then (case add_phone r phone of
                       Inl e \<Rightarrow> (Inl e, book1)
                     | Inr r1 \<Rightarrow> (Inr message, AList.update n r1 book1))
               else (Inr message, book1))
      | _ \<Rightarrow>
          (Inl (ValueError (''not enough values to unpack (expected at least 2, got '' @
                  str_nat (length args) @ '')'')), book)))"

definition add_contact :: "string list \<Rightarrow> AddressBook \<Rightarrow> outcome" where
  "add_contact args book = handle_errors add_contact_body (args, book)"

text \<open>
  \<open>name, phone = args\<close> raises \<open>ValueError\<close> unless there are exactly two arguments
  (the messages as CPython words them up to release 3.13).
\<close>

definition unpack2_error :: "string list \<Rightarrow> error" where
  "unpack2_error args =
     (if length args < 2
      then ValueError (''not enough values to unpack (expected 2, got '' @ str_nat (length args) @ '')'')
      else ValueError ''too many values to unpack (expected 2)'')"

definition change_contact_body :: "string list \<times> AddressBook \<Rightarrow> outcome" where
  "change_contact_body = (\<lambda>(args, book).
     (case args of
        [n, phone] \<Rightarrow>
          (case find_book book n of
             Some r \<Rightarrow>
               (case Phone_list (split CHR '','' phone) of
                  Inl e \<Rightarrow> (Inl e, book)
                | Inr ps \<Rightarrow> (Inr ''Contact changed.'', AList.update n (r\<lparr>phones := ps\<rparr>) book))
           | None \<Rightarrow> (Inr not_found, book))
      | _ \<Rightarrow> (Inl (unpack2_error args), book)))"

definition change_contact :: "string list \<Rightarrow> AddressBook \<Rightarrow> outcome" where
  "change_contact args book = handle_errors change_contact_body (args, book)"

text \<open>\<open>args[0]\<close> raises \<open>IndexError\<close> on an empty list.\<close>

definition show_phone_body :: "string list \<times> AddressBook \<Rightarrow> outcome" where
  "show_phone_body = (\<lambda>(args, book).
     (case args of
        [] \<Rightarrow> (Inl IndexError, book)
      | n # _ \<Rightarrow>
          (case find_book book n of
             Some r \<Rightarrow> (Inr (join ''; '' (map Field_str (phones r))), book)
           | None \<Rightarrow> (Inr not_found, book))))"

definition show_phone :: "string list \<Rightarrow> AddressBook \<Rightarrow> outcome" where
  "show_phone args book = handle_errors show_phone_body (args, book)"

definition show_all_body :: "bool \<Rightarrow> AddressBook \<Rightarrow> outcome" where
  "show_all_body norm book = (Inr (join [CHR 0x0A] (map (Record_str norm) (map snd book))), book)"

definition show_all :: "bool \<Rightarrow> AddressBook \<Rightarrow> outcome" where
  "show_all norm book = handle_errors (show_all_body norm) book"

definition add_birthday_body :: "string list \<times> AddressBook \<Rightarrow> outcome" where
  "add_birthday_body = (\<lambda>(args, book).
     (case args of
        [n, b] \<Rightarrow>
          (case find_book book n of
             Some r \<Rightarrow>
               (case add_birthday r b of
                  Inl e \<Rightarrow> (Inl e, book)
                | Inr r1 \<Rightarrow> (Inr ''Birthday added.'', AList.update n r1 book))
           | None \<Rightarrow> (Inr not_found, book))
      | _ \<Rightarrow> (Inl (unpack2_error args), book)))"

definition add_birthday_cmd :: "string list \<Rightarrow> AddressBook \<Rightarrow> outcome" where
  "add_birthday_cmd args book = handle_errors add_birthday_body (args, book)"

definition birthday_not_set :: string where
  "birthday_not_set = ''This name is not entered in the phone book or birthday is not set.''"

definition show_birthday_body :: "bool \<Rightarrow> string list \<times> AddressBook \<Rightarrow> outcome" where
  "show_birthday_body norm = (\<lambda>(args, book).
     (case args of
        [] \<Rightarrow> (Inl IndexError, book)
      | n # _ \<Rightarrow>
          (case find_book book n of
             Some r \<Rightarrow>
               (case birthday r of
                  Some b \<Rightarrow> (Inr (strftime norm ''%d.%m.%Y'' (fvalue b)), book)
                | None \<Rightarrow> (Inr birthday_not_set, book))
           | None \<Rightarrow> (Inr birthday_not_set, book))))"

definition show_birthday :: "bool \<Rightarrow> string list \<Rightarrow> AddressBook \<Rightarrow> outcome" where
  "show_birthday norm args book = handle_errors (show_birthday_body norm) (args, book)"

definition birthdays_body :: "bool \<Rightarrow> date \<Rightarrow> AddressBook \<Rightarrow> outcome" where
  "birthdays_body norm today book =
     (case get_upcoming_birthdays norm today book of
        Inl e \<Rightarrow> (Inl e, book)
      | Inr upcoming_birthdays \<Rightarrow>
          if upcoming_birthdays \<noteq> []
          then (Inr (join [CHR 0x0A]
                       (map (\<lambda>b. ''Name: '' @ c_name b @ '', Birthday: '' @ congratulation_date b)
                          upcoming_birthdays)), book)
          else (Inr ''No upcoming birthdays in the next week.'', book))"

definition birthdays :: "bool \<Rightarrow> date \<Rightarrow> AddressBook \<Rightarrow> outcome" where
  "birthdays norm today book = handle_errors (birthdays_body norm today) book"

section \<open>Notions the properties are stated with\<close>

text \<open>A phone as \<open>Phone\<close> accepts it: ten characters, each a digit for \<open>str.isdigit\<close>.\<close>

definition valid_phone :: "string \<Rightarrow> bool" where
  "valid_phone s = (length s = 10 \<and> list_all isdigit_char s)"

text \<open>The invariant of the book: no key twice, and every key is the name of its record.\<close>

definition book_inv :: "AddressBook \<Rightarrow> bool" where
  "book_inv book = (distinct (map fst book) \<and> list_all (\<lambda>(k, r). k = fvalue (name r)) book)"

text \<open>
  The upcoming-birthday rule in the words of the specification: this year's occurrence
  of a birthday, rolled forward to next year when it lies strictly before today; the
  days until it; the window of seven days; and the days until the congratulation date,
  which moves a Saturday or Sunday on by \<open>7 - weekday\<close>.
\<close>

definition occurrence :: "date \<Rightarrow> 'a date_scheme \<Rightarrow> date" where
  "occurrence today b =
     (if date_lt \<lparr>year = year today, month = month b, day = day b\<rparr> today
      then \<lparr>year = year today + 1, month = month b, day = day b\<rparr>
      else \<lparr>year = year today, month = month b, day = day b\<rparr>)"

definition days_until :: "date \<Rightarrow> 'a date_scheme \<Rightarrow> int" where
  "days_until today b = toordinal (occurrence today b) - toordinal today"

definition included :: "date \<Rightarrow> 'a date_scheme \<Rightarrow> bool" where
  "included today b = (0 \<le> days_until today b \<and> days_until today b \<le> 7)"

definition congratulation_days :: "date \<Rightarrow> 'a date_scheme \<Rightarrow> int" where
  "congratulation_days today b =
     (if weekday (occurrence today b) = 5 \<or> weekday (occurrence today b) = 6
      then days_until today b + (7 - weekday (occurrence today b))
      else days_until today b)"

text \<open>
  A birthday can be projected when the dates the rule needs exist: its day and month in
  today's year and, when that occurrence has passed, in the year after. 29 February
  exists in leap years only, and no date exists in the year 10000.
\<close>

definition projectable :: "date \<Rightarrow> 'a date_scheme \<Rightarrow> bool" where
  "projectable today b =
     (check_date_fields (year today) (month b) (day b) = None \<and>
      (if date_lt \<lparr>year = year today, month = month b, day = day b\<rparr> today
       then check_date_fields (year today + 1) (month b) (day b) = None
       else True))"

definition all_projectable :: "date \<Rightarrow> AddressBook \<Rightarrow> bool" where
  "all_projectable today book =
     list_all (\<lambda>r. case birthday r of None \<Rightarrow> True | Some b \<Rightarrow> projectable today (fvalue b)) (map snd book)"

definition is_upcoming :: "date \<Rightarrow> Record \<Rightarrow> bool" where
  "is_upcoming today r = (case birthday r of None \<Rightarrow> False | Some b \<Rightarrow> included today (fvalue b))"

text \<open>The entry of a record in the result, when it has one.\<close>

definition congratulation_of :: "bool \<Rightarrow> date \<Rightarrow> Record \<Rightarrow> congratulation option" where
  "congratulation_of norm today r =
     (case birthday r of
        None \<Rightarrow> None
      | Some b \<Rightarrow>
          if included today (fvalue b)
          then Some \<lparr>c_name = fvalue (name r),
                     congratulation_date =
                       strftime norm ''%Y.%m.%d''
                         (ord2ymd (toordinal today + congratulation_days today (fvalue b)))\<rparr>
          else None)"

text \<open>
  The strings \<open>strptime\<close> reads as a given day, month and year with the format
  \<open>%d.%m.%Y\<close>: the day with two digits, or for a day below 10 with one digit, alone or
  after a space; the month with two digits or, below 10, with one; the year with four
  digits.
\<close>

definition day_tokens :: "int \<Rightarrow> string list" where
  "day_tokens d = zfill 2 d # (if d < 10 then [zfill 1 d, '' '' @ zfill 1 d] else [])"

definition month_tokens :: "int \<Rightarrow> string list" where
  "month_tokens m = zfill 2 m # (if m < 10 then [zfill 1 m] else [])"

definition accepted_forms :: "'a date_scheme \<Rightarrow> string list" where
  "accepted_forms d =
     [dt @ ''.'' @ mt @ ''.'' @ zfill 4 (year d). dt \<leftarrow> day_tokens (day d), mt \<leftarrow> month_tokens (month d)]"

section \<open>Phones\<close>

lemma valid_phone_isdigit: "valid_phone s \<longleftrightarrow> isdigit s \<and> length s = 10"
  by (auto simp: valid_phone_def isdigit_def)

lemma Phone_init_valid: "valid_phone s \<Longrightarrow> Phone_init s = Inr \<lparr>fvalue = s\<rparr>"
  by (simp add: Phone_init_def valid_phone_isdigit)

lemma Phone_init_invalid:
  "\<not> valid_phone s \<Longrightarrow>
   Phone_init s = Inl (ValueError ''Invalid phone number format. Must contain 10 digits.'')"
  by (auto simp add: Phone_init_def valid_phone_isdigit)


lemma ascii_digit_isdigit: "list_all ascii_digit s \<Longrightarrow> list_all isdigit_char s"
  by (induction s) (simp_all add: isdigit_char_def)

text \<open>
  C4, as the code has it. \<open>Phone\<close> accepts exactly the strings of ten characters that
  \<open>str.isdigit\<close> takes for digits, and \<open>str\<close> of the phone is the string it was built
  from; every other string raises the \<open>ValueError\<close> of the class. Ten ASCII decimal
  digits are always accepted.
\<close>

theorem Phone_roundtrip:
  "(valid_phone s \<longrightarrow> (\<exists>p. Phone_init s = Inr p \<and> Field_str p = s)) \<and>
   (\<not> valid_phone s \<longrightarrow>
      Phone_init s = Inl (ValueError ''Invalid phone number format. Must contain 10 digits.'')) \<and>
   (length s = 10 \<and> list_all ascii_digit s \<longrightarrow> valid_phone s)"
  by (simp add: Phone_init_valid Phone_init_invalid Field_str_def valid_phone_def ascii_digit_isdigit)

theorem Phone_roundtrip_witness:
  "(\<exists>p. Phone_init ''1234567890'' = Inr p \<and> Field_str p = ''1234567890'') \<and>
   Phone_init ''12345'' = Inl (ValueError ''Invalid phone number format. Must contain 10 digits.'') \<and>
   valid_phone ''1234567890''"
proof -
  have a: "length ''1234567890'' = 10 \<and> list_all ascii_digit ''1234567890''"
    by (simp add: ascii_digit_def)
  have b: "\<not> valid_phone ''12345''"
    by (simp add: valid_phone_def)
  from a Phone_roundtrip [of "''1234567890''"] have c: "valid_phone ''1234567890''"
    by blast
  from c b Phone_roundtrip [of "''1234567890''"] Phone_roundtrip [of "''12345''"]
  show ?thesis by blast
qed

text \<open>
  C4 as stated fails: ten times the superscript two (U+00B2) is no string of decimal
  digits, yet \<open>isdigit\<close> accepts it and the phone is built.
\<close>

theorem Phone_superscript_counterexample:
  "\<not> list_all ascii_digit [CHR 0xB2, CHR 0xB2, CHR 0xB2, CHR 0xB2, CHR 0xB2,
                            CHR 0xB2, CHR 0xB2, CHR 0xB2, CHR 0xB2, CHR 0xB2] \<and>
   Phone_init [CHR 0xB2, CHR 0xB2, CHR 0xB2, CHR 0xB2, CHR 0xB2,
               CHR 0xB2, CHR 0xB2, CHR 0xB2, CHR 0xB2, CHR 0xB2] =
     Inr \<lparr>fvalue = [CHR 0xB2, CHR 0xB2, CHR 0xB2, CHR 0xB2, CHR 0xB2,
                    CHR 0xB2, CHR 0xB2, CHR 0xB2, CHR 0xB2, CHR 0xB2]\<rparr>"
  by (simp add: Phone_init_def isdigit_def isdigit_char_def ascii_digit_def)

text \<open>
  C3. \<open>edit_phone\<close> stores the new string as it is: the only phone of John becomes
  \<open>abc\<close>, a string \<open>Phone\<close> refuses, and nothing is raised. With no matching entry the
  record is unchanged.
\<close>

theorem edit_phone_stores_unvalidated:
  "edit_phone \<lparr>name = \<lparr>fvalue = ''John''\<rparr>, phones = [\<lparr>fvalue = ''1234567890''\<rparr>], birthday = None\<rparr>
     ''1234567890'' ''abc'' =
   \<lparr>name = \<lparr>fvalue = ''John''\<rparr>, phones = [\<lparr>fvalue = ''abc''\<rparr>], birthday = None\<rparr> \<and>
   isdigit ''abc'' = False \<and>
   edit_phone \<lparr>name = \<lparr>fvalue = ''John''\<rparr>, phones = [\<lparr>fvalue = ''1234567890''\<rparr>], birthday = None\<rparr>
     ''0000000000'' ''abc'' =
   \<lparr>name = \<lparr>fvalue = ''John''\<rparr>, phones = [\<lparr>fvalue = ''1234567890''\<rparr>], birthday = None\<rparr>"
  by (simp add: edit_phone_def Field_str_def isdigit_def isdigit_char_def ascii_digit_def)

section \<open>The handlers for phones\<close>

lemma Phone_list_valid:
  "list_all valid_phone ps \<Longrightarrow> Phone_list ps = Inr (map (\<lambda>p. \<lparr>fvalue = p\<rparr>) ps)"
  by (induction ps) (simp_all add: Phone_init_valid)

lemma Phone_list_invalid:
  "\<not> list_all valid_phone ps \<Longrightarrow>
   Phone_list ps = Inl (ValueError ''Invalid phone number format. Must contain 10 digits.'')"
proof (induction ps)
  case Nil
  then show ?case by simp
next
  case (Cons p ps)
  show ?case
  proof (cases "valid_phone p")
    case True
    with Cons show ?thesis by (simp add: Phone_init_valid)
  next
    case False
    then show ?thesis by (simp add: Phone_init_invalid)
  qed
qed

lemma split_no_sep: "sep \<notin> set w \<Longrightarrow> split sep (w @ sep # rest) = w # split sep rest"
  by (induction w) auto

lemma split_plain: "sep \<notin> set w \<Longrightarrow> split sep w = [w]"
  by (induction w) auto

lemma split_join:
  "ps \<noteq> [] \<Longrightarrow> list_all (\<lambda>p. sep \<notin> set p) ps \<Longrightarrow> split sep (join [sep] ps) = ps"
proof (induction "[sep]" ps rule: join.induct)
  case 1
  then show ?case by simp
next
  case (2 x)
  then show ?case by (simp add: split_plain)
next
  case (3 x y ys)
  then show ?case by (simp add: split_no_sep)
qed

lemma valid_phone_no_comma: "valid_phone p \<Longrightarrow> CHR '','' \<notin> set p"
proof
  assume v: "valid_phone p" and c: "CHR '','' \<in> set p"
  from v c have "isdigit_char CHR '',''" by (auto simp: valid_phone_def list_all_iff)
  then show False by (simp add: isdigit_char_def ascii_digit_def)
qed

lemma split_join_phones:
  assumes "ps \<noteq> []" "list_all valid_phone ps"
  shows "split CHR '','' (join '','' ps) = ps"
proof -
  from assms(2) have "list_all (\<lambda>p. CHR '','' \<notin> set p) ps"
    by (induction ps) (simp_all add: valid_phone_no_comma)
  with assms(1) show ?thesis by (rule split_join)
qed



lemma update_twice: "AList.update k v2 (AList.update k v1 book) = AList.update k v2 book"
  by (induction book) auto

lemma change_ok:
  assumes "find_book book n = Some r" "list_all valid_phone (split CHR '','' phone)"
  shows "change_contact [n, phone] book =
     (Inr ''Contact changed.'',
      AList.update n (r\<lparr>phones := map (\<lambda>p. \<lparr>fvalue = p\<rparr>) (split CHR '','' phone)\<rparr>) book)"
  using assms
  by (simp add: change_contact_def change_contact_body_def handle_errors_def Phone_list_valid)

lemma change_bad:
  assumes "find_book book n = Some r" "\<not> list_all valid_phone (split CHR '','' phone)"
  shows "change_contact [n, phone] book =
     (Inr ''Invalid phone number format. Must contain 10 digits.'', book)"
  using assms
  by (simp add: change_contact_def change_contact_body_def handle_errors_def Phone_list_invalid)

lemma change_unknown:
  assumes "find_book book n = None"
  shows "change_contact [n, phone] book = (Inr not_found, book)"
  using assms by (simp add: change_contact_def change_contact_body_def handle_errors_def)












text \<open>
  C8. On a known name, \<open>change\<close> with the phones \<open>ps\<close> joined by commas, all of them
  accepted by \<open>Phone\<close>, answers \<open>Contact changed.\<close> and leaves the record with exactly
  the phones \<open>ps\<close>, in that order, whatever it held before. On an unknown name it
  answers the not-found sentence and the book is unchanged.
\<close>

theorem change_contact_replaces_phones:
  "(find_book book n = Some r \<and> ps \<noteq> [] \<and> list_all valid_phone ps \<longrightarrow>
      change_contact [n, join '','' ps] book =
        (Inr ''Contact changed.'',
         AList.update n (r\<lparr>phones := map (\<lambda>p. \<lparr>fvalue = p\<rparr>) ps\<rparr>) book) \<and>
      find_book (snd (change_contact [n, join '','' ps] book)) n =
        Some (r\<lparr>phones := map (\<lambda>p. \<lparr>fvalue = p\<rparr>) ps\<rparr>)) \<and>
   (find_book book n = None \<longrightarrow>
      change_contact [n, phone] book = (Inr ''This name is not entered in the phone book.'', book))"
proof (intro conjI impI)
  assume a: "find_book book n = Some r \<and> ps \<noteq> [] \<and> list_all valid_phone ps"
  then have s: "split CHR '','' (join '','' ps) = ps"
    by (simp add: split_join_phones)
  with a have v: "list_all valid_phone (split CHR '','' (join '','' ps))"
    by simp
  from a have f: "find_book book n = Some r"
    by simp
  show c: "change_contact [n, join '','' ps] book =
        (Inr ''Contact changed.'',
         AList.update n (r\<lparr>phones := map (\<lambda>p. \<lparr>fvalue = p\<rparr>) ps\<rparr>) book)"
    using change_ok[OF f v] s by simp
  show "find_book (snd (change_contact [n, join '','' ps] book)) n =
        Some (r\<lparr>phones := map (\<lambda>p. \<lparr>fvalue = p\<rparr>) ps\<rparr>)"
    unfolding c by (simp add: find_book_def update_conv')
next
  assume "find_book book n = None"
  then show "change_contact [n, phone] book = (Inr ''This name is not entered in the phone book.'', book)"
    using change_unknown by (simp add: not_found_def)
qed

theorem change_contact_witness:
  "change_contact [''John'', ''1111111111,2222222222'']
     [(''John'', \<lparr>name = \<lparr>fvalue = ''John''\<rparr>, phones = [\<lparr>fvalue = ''1234567890''\<rparr>], birthday = None\<rparr>)] =
     (Inr ''Contact changed.'',
      [(''John'', \<lparr>name = \<lparr>fvalue = ''John''\<rparr>,
                  phones = [\<lparr>fvalue = ''1111111111''\<rparr>, \<lparr>fvalue = ''2222222222''\<rparr>],
                  birthday = None\<rparr>)]) \<and>
   change_contact [''Ghost'', ''1111111111''] [] =
     (Inr ''This name is not entered in the phone book.'', [])"
proof -
  have v: "list_all valid_phone [''1111111111'', ''2222222222'']"
    by (simp add: valid_phone_def isdigit_char_def ascii_digit_def)
  have f: "find_book [(''John'', \<lparr>name = \<lparr>fvalue = ''John''\<rparr>, phones = [\<lparr>fvalue = ''1234567890''\<rparr>], birthday = None\<rparr>)] ''John''
      = Some \<lparr>name = \<lparr>fvalue = ''John''\<rparr>, phones = [\<lparr>fvalue = ''1234567890''\<rparr>], birthday = None\<rparr>"
    by (simp add: find_book_def)
  have g: "find_book [] ''Ghost'' = None"
    by (simp add: find_book_def)
  from change_contact_replaces_phones
         [of "[(''John'', \<lparr>name = \<lparr>fvalue = ''John''\<rparr>, phones = [\<lparr>fvalue = ''1234567890''\<rparr>], birthday = None\<rparr>)]"
             "''John''" _ "[''1111111111'', ''2222222222'']"] v f
       change_contact_replaces_phones [of "[]" "''Ghost''" _ _ "''1111111111''"] g
  show ?thesis by simp
qed

text \<open>
  C10. On a known name, \<open>change\<close> with a list in which some element is refused by
  \<open>Phone\<close> answers the message of the \<open>ValueError\<close> and returns the book as it was: the
  list of phones is built before it is assigned, so the record keeps its phones.
\<close>

theorem change_contact_atomic:
  "find_book book n = Some r \<Longrightarrow> \<not> list_all valid_phone (split CHR '','' phone) \<Longrightarrow>
   change_contact [n, phone] book =
     (Inr ''Invalid phone number format. Must contain 10 digits.'', book) \<and>
   find_book (snd (change_contact [n, phone] book)) n = Some r"
  using change_bad by simp

theorem change_contact_atomic_witness:
  "change_contact [''John'', ''1111111111,222'']
     [(''John'', \<lparr>name = \<lparr>fvalue = ''John''\<rparr>, phones = [\<lparr>fvalue = ''1234567890''\<rparr>], birthday = None\<rparr>)] =
     (Inr ''Invalid phone number format. Must contain 10 digits.'',
      [(''John'', \<lparr>name = \<lparr>fvalue = ''John''\<rparr>, phones = [\<lparr>fvalue = ''1234567890''\<rparr>], birthday = None\<rparr>)])"
proof -
  have v: "\<not> list_all valid_phone (split CHR '','' ''1111111111,222'')"
    by (simp add: valid_phone_def)
  have f: "find_book [(''John'', \<lparr>name = \<lparr>fvalue = ''John''\<rparr>, phones = [\<lparr>fvalue = ''1234567890''\<rparr>], birthday = None\<rparr>)] ''John''
      = Some \<lparr>name = \<lparr>fvalue = ''John''\<rparr>, phones = [\<lparr>fvalue = ''1234567890''\<rparr>], birthday = None\<rparr>"
    by (simp add: find_book_def)
  from change_contact_atomic [OF f v] show ?thesis by simp
qed

section \<open>The invariant of the book\<close>

lemma keys_update:
  "list_all (\<lambda>(k, r). k = fvalue (name r)) book \<Longrightarrow> fvalue (name r) = k \<Longrightarrow>
   list_all (\<lambda>(k, r). k = fvalue (name r)) (AList.update k r book)"
  by (induction book) auto

lemma book_inv_update:
  "book_inv book \<Longrightarrow> fvalue (name r) = k \<Longrightarrow> book_inv (AList.update k r book)"
  by (simp add: book_inv_def AList.distinct_update keys_update)

lemma book_inv_delete: "book_inv book \<Longrightarrow> book_inv (AList.delete k book)"
  by (induction book) (auto simp: book_inv_def AList.delete_eq)

lemma book_inv_find: "book_inv book \<Longrightarrow> find_book book n = Some r \<Longrightarrow> fvalue (name r) = n"
  by (induction book) (auto simp: book_inv_def find_book_def split: if_splits)

lemma book_inv_names: "book_inv book \<Longrightarrow> distinct (map (\<lambda>(k, r). fvalue (name r)) book)"
proof -
  assume a: "book_inv book"
  then have eq: "map (\<lambda>(k, r). fvalue (name r)) book = map fst book"
    by (induction book) (auto simp: book_inv_def)
  show ?thesis unfolding eq using a by (simp add: book_inv_def)
qed

lemma handle_errors_snd: "snd (handle_errors func x) = snd (func x)"
  by (cases "func x") (auto simp: handle_errors_def split: sum.splits error.splits)

lemma book_inv_add_contact: "book_inv book \<Longrightarrow> book_inv (snd (add_contact args book))"
proof -
  assume inv: "book_inv book"
  show ?thesis
  proof (cases args)
    case Nil
    with inv show ?thesis by (simp add: add_contact_def handle_errors_snd add_contact_body_def)
  next
    case (Cons n rest)
    show ?thesis
    proof (cases rest)
      case Nil
      with Cons inv show ?thesis
        by (simp add: add_contact_def handle_errors_snd add_contact_body_def)
    next
      case (Cons phone rest')
      note args = \<open>args = n # rest\<close> Cons
      show ?thesis
      proof (cases "find_book book n")
        case None
        show ?thesis
        proof (cases "n = []")
          case True
          with None args inv show ?thesis
            by (simp add: add_contact_def handle_errors_snd add_contact_body_def Record_init_def Name_init_def)
        next
          case False
          let ?r = "\<lparr>name = \<lparr>fvalue = n\<rparr>, phones = [], birthday = None\<rparr>"
          have 1: "book_inv (add_record book ?r)"
            using inv by (simp add: add_record_def book_inv_update)
          have 2: "book_inv (AList.update n r1 (add_record book ?r))" if "add_phone ?r phone = Inr r1" for r1
            using that 1 by (intro book_inv_update) (auto simp: add_phone_def split: sum.splits)
          from None args False 1 2 show ?thesis
            by (auto simp add: add_contact_def handle_errors_snd add_contact_body_def Record_init_def
                Name_init_def split: sum.splits)
        qed
      next
        case (Some r)
        have n: "fvalue (name r) = n" using inv Some by (rule book_inv_find)
        have 2: "book_inv (AList.update n r1 book)" if "add_phone r phone = Inr r1" for r1
          using that inv n by (intro book_inv_update) (auto simp: add_phone_def split: sum.splits)
        from Some args inv 2 show ?thesis
          by (auto simp add: add_contact_def handle_errors_snd add_contact_body_def split: sum.splits)
      qed
    qed
  qed
qed

lemma book_inv_change_contact: "book_inv book \<Longrightarrow> book_inv (snd (change_contact args book))"
proof -
  assume inv: "book_inv book"
  have 1: "book_inv (AList.update n (r\<lparr>phones := ps\<rparr>) book)" if "find_book book n = Some r" for n r ps
    using inv book_inv_find[OF inv that] by (intro book_inv_update) simp_all
  from inv 1 show ?thesis
    by (auto simp add: change_contact_def handle_errors_snd change_contact_body_def
        split: list.splits option.splits sum.splits)
qed

lemma book_inv_add_birthday: "book_inv book \<Longrightarrow> book_inv (snd (add_birthday_cmd args book))"
proof -
  assume inv: "book_inv book"
  have 1: "book_inv (AList.update n r1 book)"
    if "find_book book n = Some r" "add_birthday r b = Inr r1" for n r r1 b
    using inv book_inv_find[OF inv that(1)] that(2)
    by (intro book_inv_update) (auto simp: add_birthday_def split: sum.splits)
  from inv 1 show ?thesis
    by (auto simp add: add_birthday_cmd_def handle_errors_snd add_birthday_body_def
        split: list.splits option.splits sum.splits)
qed

text \<open>
  C6. The empty book satisfies the invariant (no key twice, every key the name of its
  record), and \<open>add_record\<close>, \<open>delete\<close> and the three handlers that change the book keep
  it; under it no two records bear the same name. \<open>find\<close> after \<open>add_record\<close> returns the
  record that was added, and adding a second record of the same name gives the book that
  adding the second alone gives: nothing of the first is kept.
\<close>

theorem book_invariant:
  "book_inv [] \<and>
   (book_inv book \<longrightarrow>
      book_inv (add_record book r) \<and> book_inv (delete_book book n) \<and>
      book_inv (snd (add_contact args book)) \<and> book_inv (snd (change_contact args book)) \<and>
      book_inv (snd (add_birthday_cmd args book)) \<and>
      distinct (map (\<lambda>(k, r). fvalue (name r)) book)) \<and>
   find_book (add_record book r) (fvalue (name r)) = Some r \<and>
   (fvalue (name r2) = fvalue (name r) \<longrightarrow>
      add_record (add_record book r) r2 = add_record book r2 \<and>
      find_book (add_record (add_record book r) r2) (fvalue (name r)) = Some r2)"
proof (intro conjI impI)
  show "book_inv []" by (simp add: book_inv_def)
  show "find_book (add_record book r) (fvalue (name r)) = Some r"
    by (simp add: find_book_def add_record_def AList.update_conv')
next
  assume a: "book_inv book"
  show "book_inv (add_record book r)" using a by (simp add: add_record_def book_inv_update)
  show "book_inv (delete_book book n)" using a by (simp add: delete_book_def book_inv_delete)
  show "book_inv (snd (add_contact args book))" using a by (rule book_inv_add_contact)
  show "book_inv (snd (change_contact args book))" using a by (rule book_inv_change_contact)
  show "book_inv (snd (add_birthday_cmd args book))" using a by (rule book_inv_add_birthday)
  show "distinct (map (\<lambda>(k, r). fvalue (name r)) book)" using a by (rule book_inv_names)
next
  assume e: "fvalue (name r2) = fvalue (name r)"
  then show "add_record (add_record book r) r2 = add_record book r2"
    by (simp add: add_record_def update_twice)
  from e show "find_book (add_record (add_record book r) r2) (fvalue (name r)) = Some r2"
    by (simp add: find_book_def add_record_def AList.update_conv')
qed

theorem book_invariant_witness:
  "book_inv (add_record [] \<lparr>name = \<lparr>fvalue = ''John''\<rparr>, phones = [], birthday = None\<rparr>) \<and>
   add_record
     (add_record [] \<lparr>name = \<lparr>fvalue = ''John''\<rparr>, phones = [\<lparr>fvalue = ''1234567890''\<rparr>], birthday = None\<rparr>)
     \<lparr>name = \<lparr>fvalue = ''John''\<rparr>, phones = [], birthday = None\<rparr> =
   [(''John'', \<lparr>name = \<lparr>fvalue = ''John''\<rparr>, phones = [], birthday = None\<rparr>)]"
proof -
  note t = book_invariant [of "[]" "\<lparr>name = \<lparr>fvalue = ''John''\<rparr>, phones = [], birthday = None\<rparr>"]
  have 0: "book_inv []" by (simp add: book_inv_def)
  from t 0 have a: "book_inv (add_record [] \<lparr>name = \<lparr>fvalue = ''John''\<rparr>, phones = [], birthday = None\<rparr>)"
    by blast
  have e: "fvalue (name \<lparr>name = \<lparr>fvalue = ''John''\<rparr>, phones = [], birthday = None\<rparr>) =
           fvalue (name \<lparr>name = \<lparr>fvalue = ''John''\<rparr>, phones = [\<lparr>fvalue = ''1234567890''\<rparr>], birthday = None\<rparr>)"
    by simp
  from book_invariant [of "[]" "\<lparr>name = \<lparr>fvalue = ''John''\<rparr>, phones = [\<lparr>fvalue = ''1234567890''\<rparr>], birthday = None\<rparr>"
         _ _ "\<lparr>name = \<lparr>fvalue = ''John''\<rparr>, phones = [], birthday = None\<rparr>"] e
  have b: "add_record
     (add_record [] \<lparr>name = \<lparr>fvalue = ''John''\<rparr>, phones = [\<lparr>fvalue = ''1234567890''\<rparr>], birthday = None\<rparr>)
     \<lparr>name = \<lparr>fvalue = ''John''\<rparr>, phones = [], birthday = None\<rparr> =
     add_record [] \<lparr>name = \<lparr>fvalue = ''John''\<rparr>, phones = [], birthday = None\<rparr>"
    by blast
  have c: "add_record [] \<lparr>name = \<lparr>fvalue = ''John''\<rparr>, phones = [], birthday = None\<rparr> =
      [(''John'', \<lparr>name = \<lparr>fvalue = ''John''\<rparr>, phones = [], birthday = None\<rparr>)]"
    by (simp add: add_record_def)
  from a b c show ?thesis by simp
qed

section \<open>Ordinals of dates\<close>

lemma check_date_fields_error: "check_date_fields y m d = Some e \<Longrightarrow> \<exists>msg. e = ValueError msg"
  by (auto simp: check_date_fields_def split: if_splits)

lemma month_cases:
  "1 \<le> (m::int) \<Longrightarrow> m \<le> 12 \<Longrightarrow>
   m = 1 \<or> m = 2 \<or> m = 3 \<or> m = 4 \<or> m = 5 \<or> m = 6 \<or> m = 7 \<or> m = 8 \<or> m = 9 \<or> m = 10 \<or> m = 11 \<or> m = 12"
  by arith

lemma leap_days_bounds:
  assumes "0 \<le> (y1::int)"
  shows "0 \<le> y1 div 4 - y1 div 100 + y1 div 400 \<and>
         400 * (y1 div 4 - y1 div 100 + y1 div 400) \<le> 97 * y1 + 400"
proof -
  define q4 where "q4 = y1 div 4"
  define q100 where "q100 = y1 div 100"
  define q400 where "q400 = y1 div 400"
  have a: "4 * q4 \<le> y1" "y1 < 4 * q4 + 4" using assms by (simp_all add: q4_def)
  have b: "100 * q100 \<le> y1" "y1 < 100 * q100 + 100" using assms by (simp_all add: q100_def)
  have c: "0 \<le> q400" "400 * q400 \<le> y1" using assms by (simp_all add: q400_def)
  have d: "q100 \<le> q4" unfolding q100_def q4_def using assms
    by (intro zdiv_mono2) simp_all
  have "0 \<le> q4 - q100 + q400" using c d by linarith
  moreover have "400 * q4 - 400 * q100 + 400 * q400 \<le> 97 * y1 + 400" using a b c by linarith
  ultimately show ?thesis unfolding q4_def q100_def q400_def by (simp add: algebra_simps)
qed

lemma days_before_year_bounds:
  assumes "1 \<le> y" "y \<le> 9999"
  shows "0 \<le> days_before_year y \<and> days_before_year y \<le> 3651694"
proof (cases "y = 9999")
  case True
  then show ?thesis by (simp add: days_before_year_def)
next
  case False
  define y1 where "y1 = y - 1"
  have r: "0 \<le> y1" "y1 \<le> 9997" using assms False by (simp_all add: y1_def)
  have eq: "days_before_year y = y1 * 365 + (y1 div 4 - y1 div 100 + y1 div 400)"
    by (simp add: days_before_year_def Let_def y1_def)
  have "0 \<le> y1 * 365 + (y1 div 4 - y1 div 100 + y1 div 400)"
    using leap_days_bounds[OF r(1)] r by linarith
  moreover have "y1 * 365 + (y1 div 4 - y1 div 100 + y1 div 400) \<le> 3651694"
    using leap_days_bounds[OF r(1)] r by linarith
  ultimately show ?thesis unfolding eq by simp
qed

lemma days_before_year_bound2:
  assumes "1 \<le> y" "y \<le> 9998"
  shows "days_before_year y \<le> 3651693"
proof -
  define y1 where "y1 = y - 1"
  have r: "0 \<le> y1" "y1 \<le> 9997" using assms by (simp_all add: y1_def)
  have eq: "days_before_year y = y1 * 365 + (y1 div 4 - y1 div 100 + y1 div 400)"
    by (simp add: days_before_year_def Let_def y1_def)
  show ?thesis unfolding eq using leap_days_bounds[OF r(1)] r by linarith
qed

lemma days_in_year_bound:
  assumes "1 \<le> m" "m \<le> 12" "1 \<le> d" "d \<le> days_in_month y m"
  shows "1 \<le> days_before_month y m + d \<and> days_before_month y m + d \<le> 366
     \<and> (\<not> is_leap y \<longrightarrow> days_before_month y m + d \<le> 365)"
  using month_cases[OF assms(1,2)] assms(3,4)
  by (elim disjE)
     (simp_all add: days_before_month_def days_in_month_def DAYS_IN_MONTH_def DAYS_BEFORE_MONTH_def
        split: if_splits)

lemma valid_ordinal_bounds:
  assumes "check_date_fields y m d = None"
  shows "1 \<le> ymd2ord y m d \<and> ymd2ord y m d \<le> MAXORDINAL"
proof -
  from assms have y: "1 \<le> y" "y \<le> 9999" and m: "1 \<le> m" "m \<le> 12"
    and d: "1 \<le> d" "d \<le> days_in_month y m"
    by (auto simp: check_date_fields_def split: if_splits)
  note a = days_before_year_bounds[OF y] and b = days_in_year_bound[OF m d]
  show ?thesis
  proof (cases "y = 9999")
    case True
    then have "\<not> is_leap y" by (simp add: is_leap_def)
    with a b show ?thesis
      by (simp add: ymd2ord_def MAXORDINAL_def)
  next
    case False
    with y have "y \<le> 9998" by simp
    from days_before_year_bound2[OF y(1) this] a b show ?thesis
      by (simp add: ymd2ord_def MAXORDINAL_def)
  qed
qed

text \<open>The last day a date can be, 9999-12-31, is a Friday: moving a Saturday or a Sunday
  to its Monday never leaves the range of dates.\<close>

lemma shift_in_range:
  assumes "valid_date occ"
  shows "0 < toordinal occ + (if weekday occ = 5 \<or> weekday occ = 6 then 7 - weekday occ else 0) \<and>
         toordinal occ + (if weekday occ = 5 \<or> weekday occ = 6 then 7 - weekday occ else 0) \<le> MAXORDINAL"
proof -
  from assms have "1 \<le> toordinal occ \<and> toordinal occ \<le> MAXORDINAL"
    unfolding valid_date_def toordinal_def by (rule valid_ordinal_bounds)
  then show ?thesis unfolding weekday_def MAXORDINAL_def by presburger
qed

section \<open>Upcoming birthdays\<close>

lemma projectable_this_year:
  "projectable today b \<Longrightarrow> replace_year b (year today) = Inr (b\<lparr>year := year today\<rparr>)"
  by (simp add: projectable_def replace_year_def)

lemma projectable_occurrence:
  fixes b :: datetime
  assumes "projectable today b"
  shows "(if date_lt (date_of (b\<lparr>year := year today\<rparr>)) today
          then replace_year (date_of (b\<lparr>year := year today\<rparr>)) (year today + 1)
          else Inr (date_of (b\<lparr>year := year today\<rparr>))) = Inr (occurrence today b)"
  using assms by (simp add: projectable_def replace_year_def date_of_def occurrence_def)

lemma projectable_valid: "projectable today b \<Longrightarrow> valid_date (occurrence today b)"
  by (simp add: projectable_def occurrence_def valid_date_def)

lemma congratulation_in_range:
  assumes "valid_date (occurrence today b)"
  shows "date_add_days today
           (if weekday (occurrence today b) = 5 \<or> weekday (occurrence today b) = 6
            then days_until today b + (7 - weekday (occurrence today b))
            else days_until today b) =
         Inr (ord2ymd (toordinal today + congratulation_days today b))"
proof -
  have eq: "toordinal today + congratulation_days today b =
      toordinal (occurrence today b) +
        (if weekday (occurrence today b) = 5 \<or> weekday (occurrence today b) = 6
         then 7 - weekday (occurrence today b) else 0)"
    by (simp add: congratulation_days_def days_until_def)
  have "date_add_days today (congratulation_days today b) =
      Inr (ord2ymd (toordinal today + congratulation_days today b))"
    unfolding date_add_days_def Let_def eq using shift_in_range[OF assms] by simp
  then show ?thesis by (simp add: congratulation_days_def)
qed

lemma unprojectable_fails:
  fixes b :: datetime
  assumes "\<not> projectable today b"
  shows "(\<exists>msg. replace_year b (year today) = Inl (ValueError msg)) \<or>
         (replace_year b (year today) = Inr (b\<lparr>year := year today\<rparr>) \<and>
          date_lt (date_of (b\<lparr>year := year today\<rparr>)) today \<and>
          (\<exists>msg. replace_year (date_of (b\<lparr>year := year today\<rparr>)) (year today + 1) = Inl (ValueError msg)))"
proof (cases "check_date_fields (year today) (month b) (day b)")
  case (Some e)
  then show ?thesis using check_date_fields_error[OF Some] by (auto simp: replace_year_def)
next
  case None
  with assms have lt: "date_lt \<lparr>year = year today, month = month b, day = day b\<rparr> today"
    and nx: "check_date_fields (year today + 1) (month b) (day b) \<noteq> None"
    by (auto simp: projectable_def split: if_splits)
  from nx obtain e where e: "check_date_fields (year today + 1) (month b) (day b) = Some e" by auto
  from check_date_fields_error[OF e] None lt e show ?thesis
    by (auto simp: replace_year_def date_of_def)
qed

lemma upcoming_loop_no_birthday:
  "birthday r = None \<Longrightarrow> upcoming_loop norm today (r # rs) acc = upcoming_loop norm today rs acc"
  by simp

lemma upcoming_loop_step:
  assumes b: "birthday r = Some b" and p: "projectable today (fvalue b)"
  shows "upcoming_loop norm today (r # rs) acc =
     (if included today (fvalue b)
      then upcoming_loop norm today rs
             (acc @ [\<lparr>c_name = fvalue (name r),
                       congratulation_date =
                         strftime norm ''%Y.%m.%d''
                           (ord2ymd (toordinal today + congratulation_days today (fvalue b)))\<rparr>])
      else upcoming_loop norm today rs acc)"
proof -
  note a = projectable_this_year[OF p] and o = projectable_occurrence[OF p]
  have c: "date_add_days today
           (if weekday (occurrence today (fvalue b)) = 5 \<or> weekday (occurrence today (fvalue b)) = 6
            then toordinal (occurrence today (fvalue b)) - toordinal today
                   + (7 - weekday (occurrence today (fvalue b)))
            else toordinal (occurrence today (fvalue b)) - toordinal today) =
         Inr (ord2ymd (toordinal today + congratulation_days today (fvalue b)))"
    by (rule congratulation_in_range[OF projectable_valid[OF p], unfolded days_until_def])
  have w: "included today (fvalue b) \<longleftrightarrow>
      0 \<le> toordinal (occurrence today (fvalue b)) - toordinal today \<and>
      toordinal (occurrence today (fvalue b)) - toordinal today \<le> 7"
    by (simp add: included_def days_until_def)
  have "upcoming_loop norm today (r # rs) acc =
     (let days_until_birthday = toordinal (occurrence today (fvalue b)) - toordinal today
      in if 0 \<le> days_until_birthday \<and> days_until_birthday \<le> 7
         then
           (case date_add_days today
                   (if weekday (occurrence today (fvalue b)) = 5 \<or> weekday (occurrence today (fvalue b)) = 6
                    then days_until_birthday + (7 - weekday (occurrence today (fvalue b)))
                    else days_until_birthday) of
              Inl e \<Rightarrow> Inl e
            | Inr cdate \<Rightarrow>
                upcoming_loop norm today rs
                  (acc @ [\<lparr>c_name = fvalue (name r),
                            congratulation_date = strftime norm ''%Y.%m.%d'' cdate\<rparr>]))
         else upcoming_loop norm today rs acc)"
    by (simp only: upcoming_loop.simps b option.case a o sum.case)
  also have "\<dots> =
     (if included today (fvalue b)
      then upcoming_loop norm today rs
             (acc @ [\<lparr>c_name = fvalue (name r),
                       congratulation_date =
                         strftime norm ''%Y.%m.%d''
                           (ord2ymd (toordinal today + congratulation_days today (fvalue b)))\<rparr>])
      else upcoming_loop norm today rs acc)"
    unfolding Let_def c w by (simp only: sum.case)
  finally show ?thesis .
qed

lemma upcoming_loop_returns:
  "list_all (\<lambda>r. case birthday r of None \<Rightarrow> True | Some b \<Rightarrow> projectable today (fvalue b)) rs \<Longrightarrow>
   upcoming_loop norm today rs acc = Inr (acc @ List.map_filter (congratulation_of norm today) rs)"
proof (induction rs arbitrary: acc)
  case Nil
  then show ?case by (simp add: List.map_filter_simps)
next
  case (Cons r rs)
  from Cons.prems have rest:
    "list_all (\<lambda>r. case birthday r of None \<Rightarrow> True | Some b \<Rightarrow> projectable today (fvalue b)) rs"
    by simp
  note IH = Cons.IH[OF rest]
  show ?case
  proof (cases "birthday r")
    case None
    then show ?thesis
      by (simp only: upcoming_loop_no_birthday IH) (simp add: List.map_filter_simps congratulation_of_def)
  next
    case (Some b)
    with Cons.prems have p: "projectable today (fvalue b)" by simp
    show ?thesis
      by (simp only: upcoming_loop_step[OF Some p] IH)
         (simp add: List.map_filter_simps congratulation_of_def Some)
  qed
qed

lemma upcoming_loop_raises:
  "\<not> list_all (\<lambda>r. case birthday r of None \<Rightarrow> True | Some b \<Rightarrow> projectable today (fvalue b)) rs \<Longrightarrow>
   \<exists>msg. upcoming_loop norm today rs acc = Inl (ValueError msg)"
proof (induction rs arbitrary: acc)
  case Nil
  then show ?case by simp
next
  case (Cons r rs)
  show ?case
  proof (cases "birthday r")
    case None
    with Cons.prems have rest:
      "\<not> list_all (\<lambda>r. case birthday r of None \<Rightarrow> True | Some b \<Rightarrow> projectable today (fvalue b)) rs"
      by simp
    show ?thesis using Cons.IH[OF rest] by (simp only: upcoming_loop_no_birthday[OF None])
  next
    case (Some b)
    show ?thesis
    proof (cases "projectable today (fvalue b)")
      case False
      from unprojectable_fails[OF False] Some show ?thesis by auto
    next
      case p: True
      with Cons.prems Some have rest:
        "\<not> list_all (\<lambda>r. case birthday r of None \<Rightarrow> True | Some b \<Rightarrow> projectable today (fvalue b)) rs"
        by simp
      show ?thesis using Cons.IH[OF rest]
        by (simp only: upcoming_loop_step[OF Some p] split: if_split) blast
    qed
  qed
qed

lemma get_upcoming_returns:
  "all_projectable today book \<Longrightarrow>
   get_upcoming_birthdays norm today book =
     Inr (List.map_filter (congratulation_of norm today) (map snd book))"
  using upcoming_loop_returns[of today "map snd book" norm "[]"]
  by (simp add: all_projectable_def get_upcoming_birthdays_def)

lemma get_upcoming_raises:
  "\<not> all_projectable today book \<Longrightarrow>
   \<exists>msg. get_upcoming_birthdays norm today book = Inl (ValueError msg)"
  using upcoming_loop_raises[of today "map snd book" norm "[]"]
  by (simp add: all_projectable_def get_upcoming_birthdays_def)

lemma names_of_congratulations:
  "map c_name (List.map_filter (congratulation_of norm today) rs) =
   map (\<lambda>r. fvalue (name r)) (filter (is_upcoming today) rs)"
  by (induction rs)
     (auto simp: List.map_filter_simps congratulation_of_def is_upcoming_def split: option.splits)

lemma other_year_valid:
  assumes v: "valid_date b" and f: "\<not> (month b = 2 \<and> day b = 29)" and y: "1 \<le> y" "y \<le> 9999"
  shows "check_date_fields y (month b) (day b) = None"
proof -
  from v have m: "1 \<le> month b" "month b \<le> 12" and d: "1 \<le> day b" "day b \<le> days_in_month (year b) (month b)"
    by (auto simp: valid_date_def check_date_fields_def split: if_splits)
  have "day b \<le> days_in_month y (month b)"
    using month_cases[OF m] d f
    by (elim disjE) (simp_all add: days_in_month_def DAYS_IN_MONTH_def split: if_splits)
  with m d y show ?thesis by (simp add: check_date_fields_def)
qed

lemma not_leap_day_projectable:
  assumes "valid_date b" "\<not> (month b = 2 \<and> day b = 29)" "1 \<le> year today" "year today < 9999"
  shows "projectable today b"
  using other_year_valid[OF assms(1,2), of "year today"] other_year_valid[OF assms(1,2), of "year today + 1"]
    assms(3,4)
  by (simp add: projectable_def)

lemma upcoming_membership:
  assumes inv: "book_inv book" and kr: "(k, r) \<in> set book"
  shows "k \<in> set (map (\<lambda>r. fvalue (name r)) (filter (is_upcoming today) (map snd book))) \<longleftrightarrow>
         is_upcoming today r"
proof
  assume "k \<in> set (map (\<lambda>r. fvalue (name r)) (filter (is_upcoming today) (map snd book)))"
  then obtain k' r' where 1: "(k', r') \<in> set book" "is_upcoming today r'" "fvalue (name r') = k"
    by auto
  from inv 1(1) have "k' = fvalue (name r')" by (auto simp: book_inv_def list_all_iff)
  with 1 have "(k, r') \<in> set book" by simp
  with inv kr have "r' = r" by (auto simp: book_inv_def dest: eq_key_imp_eq_value)
  with 1 show "is_upcoming today r" by simp
next
  assume u: "is_upcoming today r"
  from inv kr have "k = fvalue (name r)" by (auto simp: book_inv_def list_all_iff)
  with u kr show "k \<in> set (map (\<lambda>r. fvalue (name r)) (filter (is_upcoming today) (map snd book)))"
    by force
qed

text \<open>
  C1, as the code has it. Whenever every stored birthday can be projected into the years
  the rule needs, \<open>get_upcoming_birthdays\<close> returns, and the names it returns are those
  of the records with a birthday whose occurrence (this year's, or next year's when this
  year's lies strictly before today) is 0 to 7 days after today, in the order of the
  book; with the invariant of the book, a contact is in the result exactly when its
  birthday is. Every birthday but 29 February can be projected while today's year is
  below 9999. For today 2024-06-10 the birthday 05.06.1990 occurs next on 2025-06-05,
  360 days on, and the contact is left out.
\<close>

theorem upcoming_birthdays_window:
  "(all_projectable today book \<longrightarrow>
      (\<exists>res. get_upcoming_birthdays norm today book = Inr res \<and>
             map c_name res = map (\<lambda>r. fvalue (name r)) (filter (is_upcoming today) (map snd book)) \<and>
             (book_inv book \<longrightarrow>
                (\<forall>(k, r) \<in> set book. k \<in> set (map c_name res) \<longleftrightarrow> is_upcoming today r)))) \<and>
   (is_upcoming today r \<longleftrightarrow>
      (\<exists>b. birthday r = Some b \<and>
           0 \<le> toordinal (occurrence today (fvalue b)) - toordinal today \<and>
           toordinal (occurrence today (fvalue b)) - toordinal today \<le> 7)) \<and>
   (valid_date d \<and> \<not> (month d = 2 \<and> day d = 29) \<and> 1 \<le> year today \<and> year today < 9999 \<longrightarrow>
      projectable today d) \<and>
   occurrence \<lparr>year = 2024, month = 6, day = 10\<rparr> \<lparr>year = 1990, month = 6, day = 5\<rparr> =
     \<lparr>year = 2025, month = 6, day = 5\<rparr> \<and>
   days_until \<lparr>year = 2024, month = 6, day = 10\<rparr> \<lparr>year = 1990, month = 6, day = 5\<rparr> = 360 \<and>
   get_upcoming_birthdays norm \<lparr>year = 2024, month = 6, day = 10\<rparr>
     [(''John'', \<lparr>name = \<lparr>fvalue = ''John''\<rparr>, phones = [],
                 birthday = Some \<lparr>fvalue = \<lparr>year = 1990, month = 6, day = 5, hour = 0, minute = 0,
                                             second = 0, microsecond = 0\<rparr>\<rparr>\<rparr>)] = Inr []"
proof (intro conjI impI)
  assume p: "all_projectable today book"
  show "\<exists>res. get_upcoming_birthdays norm today book = Inr res \<and>
             map c_name res = map (\<lambda>r. fvalue (name r)) (filter (is_upcoming today) (map snd book)) \<and>
             (book_inv book \<longrightarrow>
                (\<forall>(k, r) \<in> set book. k \<in> set (map c_name res) \<longleftrightarrow> is_upcoming today r))"
  proof (intro exI conjI impI)
    show "get_upcoming_birthdays norm today book =
        Inr (List.map_filter (congratulation_of norm today) (map snd book))"
      by (rule get_upcoming_returns[OF p])
    show "map c_name (List.map_filter (congratulation_of norm today) (map snd book)) =
        map (\<lambda>r. fvalue (name r)) (filter (is_upcoming today) (map snd book))"
      by (rule names_of_congratulations)
    assume inv: "book_inv book"
    show "\<forall>(k, r) \<in> set book.
        k \<in> set (map c_name (List.map_filter (congratulation_of norm today) (map snd book))) \<longleftrightarrow>
        is_upcoming today r"
      unfolding names_of_congratulations using upcoming_membership[OF inv] by fast
  qed
next
  show "is_upcoming today r \<longleftrightarrow>
      (\<exists>b. birthday r = Some b \<and>
           0 \<le> toordinal (occurrence today (fvalue b)) - toordinal today \<and>
           toordinal (occurrence today (fvalue b)) - toordinal today \<le> 7)"
    by (simp add: is_upcoming_def included_def days_until_def split: option.splits)
next
  assume "valid_date d \<and> \<not> (month d = 2 \<and> day d = 29) \<and> 1 \<le> year today \<and> year today < 9999"
  then show "projectable today d" using not_leap_day_projectable by blast
next
  show o: "occurrence \<lparr>year = 2024, month = 6, day = 10\<rparr> \<lparr>year = 1990, month = 6, day = 5\<rparr> =
     \<lparr>year = 2025, month = 6, day = 5\<rparr>"
    by (simp add: occurrence_def date_lt_def)
  show "days_until \<lparr>year = 2024, month = 6, day = 10\<rparr> \<lparr>year = 1990, month = 6, day = 5\<rparr> = 360"
    unfolding days_until_def o
    by (simp add: toordinal_def ymd2ord_def days_before_year_def days_before_month_def
        DAYS_BEFORE_MONTH_def is_leap_def)
  show "get_upcoming_birthdays norm \<lparr>year = 2024, month = 6, day = 10\<rparr>
     [(''John'', \<lparr>name = \<lparr>fvalue = ''John''\<rparr>, phones = [],
                 birthday = Some \<lparr>fvalue = \<lparr>year = 1990, month = 6, day = 5, hour = 0, minute = 0,
                                             second = 0, microsecond = 0\<rparr>\<rparr>\<rparr>)] = Inr []"
    by (simp add: get_upcoming_birthdays_def replace_year_def check_date_fields_def days_in_month_def
        DAYS_IN_MONTH_def date_of_def date_lt_def
        toordinal_def ymd2ord_def days_before_year_def days_before_month_def
        DAYS_BEFORE_MONTH_def is_leap_def)
qed

theorem upcoming_birthdays_window_witness:
  "(\<exists>res. get_upcoming_birthdays True \<lparr>year = 2024, month = 6, day = 10\<rparr>
       [(''Ann'', \<lparr>name = \<lparr>fvalue = ''Ann''\<rparr>, phones = [],
                  birthday = Some \<lparr>fvalue = \<lparr>year = 1990, month = 6, day = 15, hour = 0, minute = 0,
                                              second = 0, microsecond = 0\<rparr>\<rparr>\<rparr>),
        (''Bob'', \<lparr>name = \<lparr>fvalue = ''Bob''\<rparr>, phones = [],
                  birthday = Some \<lparr>fvalue = \<lparr>year = 1990, month = 6, day = 5, hour = 0, minute = 0,
                                              second = 0, microsecond = 0\<rparr>\<rparr>\<rparr>)] = Inr res \<and>
      map c_name res = [''Ann''])"
proof -
  let ?today = "\<lparr>year = 2024, month = 6, day = 10\<rparr>"
  let ?ann = "\<lparr>name = \<lparr>fvalue = ''Ann''\<rparr>, phones = [],
                  birthday = Some \<lparr>fvalue = \<lparr>year = 1990, month = 6, day = 15, hour = 0, minute = 0,
                                              second = 0, microsecond = 0\<rparr>\<rparr>\<rparr>"
  let ?bob = "\<lparr>name = \<lparr>fvalue = ''Bob''\<rparr>, phones = [],
                  birthday = Some \<lparr>fvalue = \<lparr>year = 1990, month = 6, day = 5, hour = 0, minute = 0,
                                              second = 0, microsecond = 0\<rparr>\<rparr>\<rparr>"
  have p: "all_projectable ?today [(''Ann'', ?ann), (''Bob'', ?bob)]"
    by (simp add: all_projectable_def projectable_def check_date_fields_def days_in_month_def
        DAYS_IN_MONTH_def date_lt_def)
  have a: "is_upcoming ?today ?ann"
    by (simp add: is_upcoming_def included_def days_until_def occurrence_def date_lt_def
        toordinal_def ymd2ord_def days_before_year_def days_before_month_def
        DAYS_BEFORE_MONTH_def is_leap_def)
  have b: "\<not> is_upcoming ?today ?bob"
    by (simp add: is_upcoming_def included_def days_until_def occurrence_def date_lt_def
        toordinal_def ymd2ord_def days_before_year_def days_before_month_def
        DAYS_BEFORE_MONTH_def is_leap_def)
  let ?book = "[(''Ann'', ?ann), (''Bob'', ?bob)]"
  have "all_projectable ?today ?book \<longrightarrow>
      (\<exists>res. get_upcoming_birthdays True ?today ?book = Inr res \<and>
             map c_name res = map (\<lambda>r. fvalue (name r)) (filter (is_upcoming ?today) (map snd ?book)) \<and>
             (book_inv ?book \<longrightarrow>
                (\<forall>(k, r) \<in> set ?book. k \<in> set (map c_name res) \<longleftrightarrow> is_upcoming ?today r)))"
    by (rule conjunct1 [OF upcoming_birthdays_window [of ?today ?book True]])
  from this p
  have "\<exists>res. get_upcoming_birthdays True ?today ?book = Inr res \<and>
             map c_name res = map (\<lambda>r. fvalue (name r)) (filter (is_upcoming ?today) (map snd ?book)) \<and>
             (book_inv ?book \<longrightarrow>
                (\<forall>(k, r) \<in> set ?book. k \<in> set (map c_name res) \<longleftrightarrow> is_upcoming ?today r))"
    by (rule mp)
  then obtain res where all: "get_upcoming_birthdays True ?today ?book = Inr res \<and>
             map c_name res = map (\<lambda>r. fvalue (name r)) (filter (is_upcoming ?today) (map snd ?book)) \<and>
             (book_inv ?book \<longrightarrow>
                (\<forall>(k, r) \<in> set ?book. k \<in> set (map c_name res) \<longleftrightarrow> is_upcoming ?today r))"
    ..
  from all have r: "get_upcoming_birthdays True ?today ?book = Inr res"
    by (rule conjunct1)
  from all have n: "map c_name res =
      map (\<lambda>r. fvalue (name r)) (filter (is_upcoming ?today) (map snd ?book))"
    by (rule conjunct1 [OF conjunct2])
  from n a b have "map c_name res = [''Ann'']" by simp
  with r show ?thesis by (intro exI conjI)
qed

text \<open>
  C1 as stated fails. On 2024-06-10 Bob's birthday, 15.06.1990, is 5 days away; Ann's is
  29.02.2000, whose occurrence in 2024 has passed and which does not exist in 2025. The
  call raises \<open>ValueError\<close> and returns no list, so Bob is in no result.
\<close>

theorem upcoming_birthdays_leap_day_counterexample:
  "days_until \<lparr>year = 2024, month = 6, day = 10\<rparr> \<lparr>year = 1990, month = 6, day = 15\<rparr> = 5 \<and>
   get_upcoming_birthdays True \<lparr>year = 2024, month = 6, day = 10\<rparr>
       [(''Ann'', \<lparr>name = \<lparr>fvalue = ''Ann''\<rparr>, phones = [],
                  birthday = Some \<lparr>fvalue = \<lparr>year = 2000, month = 2, day = 29, hour = 0, minute = 0,
                                              second = 0, microsecond = 0\<rparr>\<rparr>\<rparr>),
        (''Bob'', \<lparr>name = \<lparr>fvalue = ''Bob''\<rparr>, phones = [],
                  birthday = Some \<lparr>fvalue = \<lparr>year = 1990, month = 6, day = 15, hour = 0, minute = 0,
                                              second = 0, microsecond = 0\<rparr>\<rparr>\<rparr>)] =
     Inl (ValueError ''day is out of range for month'')"
  by (simp add: get_upcoming_birthdays_def replace_year_def check_date_fields_def days_in_month_def
        DAYS_IN_MONTH_def date_of_def date_lt_def days_until_def occurrence_def
        toordinal_def ymd2ord_def days_before_year_def days_before_month_def
        DAYS_BEFORE_MONTH_def is_leap_def)

section \<open>From ordinals back to dates\<close>






lemma digit_char_numerals:
  "digit_char 0 = CHR ''0''" "digit_char 1 = CHR ''1''" "digit_char 2 = CHR ''2''"
  "digit_char 3 = CHR ''3''" "digit_char 4 = CHR ''4''" "digit_char 5 = CHR ''5''"
  "digit_char 6 = CHR ''6''" "digit_char 7 = CHR ''7''" "digit_char 8 = CHR ''8''"
  "digit_char 9 = CHR ''9''"
  by code_simp+






section \<open>What leaves a handler\<close>

lemma handle_errors_caught:
  "(\<exists>s. fst (func x) = Inr s) \<or> (\<exists>msg. fst (func x) = Inl (ValueError msg)) \<or> fst (func x) = Inl KeyError
   \<Longrightarrow> \<exists>s. fst (handle_errors func x) = Inr s"
  by (cases "func x") (auto simp: handle_errors_def)

lemma add_contact_returns: "\<exists>s. fst (add_contact args book) = Inr s"
  unfolding add_contact_def
  by (rule handle_errors_caught)
     (auto simp: add_contact_body_def Record_init_def Name_init_def add_phone_def Phone_init_def
        split: list.splits option.splits sum.splits)

lemma Phone_list_error: "Phone_list ps = Inl e \<Longrightarrow> \<exists>msg. e = ValueError msg"
  by (induction ps arbitrary: e) (auto simp: Phone_init_def split: sum.splits if_splits)

lemma change_contact_returns: "\<exists>s. fst (change_contact args book) = Inr s"
  unfolding change_contact_def
  by (rule handle_errors_caught)
     (auto simp: change_contact_body_def unpack2_error_def
        split: list.splits option.splits sum.splits dest: Phone_list_error)

lemma add_birthday_returns: "\<exists>s. fst (add_birthday_cmd args book) = Inr s"
  unfolding add_birthday_cmd_def
  by (rule handle_errors_caught)
     (auto simp: add_birthday_body_def unpack2_error_def add_birthday_def Birthday_init_def
        split: list.splits option.splits sum.splits)

lemma show_all_returns: "\<exists>s. fst (show_all norm book) = Inr s"
  unfolding show_all_def
  by (rule handle_errors_caught) (simp add: show_all_body_def)

lemma birthdays_returns: "\<exists>s. fst (birthdays norm today book) = Inr s"
  unfolding birthdays_def
proof (rule handle_errors_caught)
  show "(\<exists>s. fst (birthdays_body norm today book) = Inr s) \<or>
        (\<exists>msg. fst (birthdays_body norm today book) = Inl (ValueError msg)) \<or>
        fst (birthdays_body norm today book) = Inl KeyError"
  proof (cases "all_projectable today book")
    case True
    then show ?thesis by (simp add: birthdays_body_def get_upcoming_returns)
  next
    case False
    from get_upcoming_raises[OF False, of norm] show ?thesis
      by (auto simp: birthdays_body_def)
  qed
qed

lemma show_phone_returns: "args \<noteq> [] \<Longrightarrow> \<exists>s. fst (show_phone args book) = Inr s"
  unfolding show_phone_def
  by (rule handle_errors_caught)
     (auto simp: show_phone_body_def split: list.splits option.splits)

lemma show_birthday_returns: "args \<noteq> [] \<Longrightarrow> \<exists>s. fst (show_birthday norm args book) = Inr s"
  unfolding show_birthday_def
  by (rule handle_errors_caught)
     (auto simp: show_birthday_body_def split: list.splits option.splits)

lemma show_birthday_unknown:
  "find_book book n = None \<Longrightarrow>
   show_birthday norm (n # rest) book =
     (Inr ''This name is not entered in the phone book or birthday is not set.'', book)"
  by (simp add: show_birthday_def show_birthday_body_def handle_errors_def birthday_not_set_def)

text \<open>
  C9, as the code has it. The decorator turns a \<open>ValueError\<close> into its message and a
  \<open>KeyError\<close> into the not-found sentence. The handlers \<open>add\<close>, \<open>change\<close>,
  \<open>add-birthday\<close>, \<open>all\<close> and \<open>birthdays\<close> return a string for every argument list and
  every book, and \<open>phone\<close> and \<open>show-birthday\<close> do for every argument list that is not
  empty; \<open>show-birthday\<close> on a name the book does not hold returns its fixed sentence.
\<close>

theorem handlers_return_strings:
  "(func x = (Inl (ValueError msg), book) \<longrightarrow> handle_errors func x = (Inr msg, book)) \<and>
   (func x = (Inl KeyError, book) \<longrightarrow>
      handle_errors func x = (Inr ''This name is not entered in the phone book.'', book)) \<and>
   (\<exists>s. fst (add_contact args book) = Inr s) \<and>
   (\<exists>s. fst (change_contact args book) = Inr s) \<and>
   (\<exists>s. fst (add_birthday_cmd args book) = Inr s) \<and>
   (\<exists>s. fst (show_all norm book) = Inr s) \<and>
   (\<exists>s. fst (birthdays norm today book) = Inr s) \<and>
   (args \<noteq> [] \<longrightarrow>
      (\<exists>s. fst (show_phone args book) = Inr s) \<and>
      (\<exists>s. fst (show_birthday norm args book) = Inr s)) \<and>
   (find_book book n = None \<longrightarrow>
      show_birthday norm (n # rest) book =
        (Inr ''This name is not entered in the phone book or birthday is not set.'', book))"
proof (intro conjI impI)
  assume "func x = (Inl (ValueError msg), book)"
  then show "handle_errors func x = (Inr msg, book)" by (simp add: handle_errors_def)
next
  assume "func x = (Inl KeyError, book)"
  then show "handle_errors func x = (Inr ''This name is not entered in the phone book.'', book)"
    by (simp add: handle_errors_def not_found_def)
next
  show "\<exists>s. fst (add_contact args book) = Inr s" by (rule add_contact_returns)
  show "\<exists>s. fst (change_contact args book) = Inr s" by (rule change_contact_returns)
  show "\<exists>s. fst (add_birthday_cmd args book) = Inr s" by (rule add_birthday_returns)
  show "\<exists>s. fst (show_all norm book) = Inr s" by (rule show_all_returns)
  show "\<exists>s. fst (birthdays norm today book) = Inr s" by (rule birthdays_returns)
next
  assume a: "args \<noteq> []"
  show "\<exists>s. fst (show_phone args book) = Inr s" using a by (rule show_phone_returns)
  show "\<exists>s. fst (show_birthday norm args book) = Inr s" using a by (rule show_birthday_returns)
next
  assume "find_book book n = None"
  then show "show_birthday norm (n # rest) book =
        (Inr ''This name is not entered in the phone book or birthday is not set.'', book)"
    by (rule show_birthday_unknown)
qed

theorem handlers_return_strings_witness:
  "show_birthday True [''Ghost''] [] =
     (Inr ''This name is not entered in the phone book or birthday is not set.'', []) \<and>
   (\<exists>s. fst (show_phone [''Ghost''] []) = Inr s)"
proof -
  note t = handlers_return_strings
             [where book = "[]" and n = "''Ghost''" and rest = "[]" and norm = True
                and args = "[''Ghost'']"]
  have f: "find_book [] ''Ghost'' = None"
    by (simp add: find_book_def)
  have a: "[''Ghost''] \<noteq> []"
    by simp
  note c = conjunct2 [OF conjunct2 [OF conjunct2 [OF conjunct2 [OF conjunct2
             [OF conjunct2 [OF conjunct2 [OF t]]]]]]]
  from mp [OF conjunct2 [OF c] f] conjunct1 [OF mp [OF conjunct1 [OF c] a]]
  show ?thesis by (intro conjI)
qed

text \<open>
  C9 as stated fails: \<open>phone\<close> and \<open>show-birthday\<close> read \<open>args[0]\<close>, and on an empty
  argument list the \<open>IndexError\<close> is none of the exceptions the decorator catches.
\<close>

theorem handlers_IndexError_counterexample:
  "show_phone [] [] = (Inl IndexError, []) \<and> show_birthday True [] [] = (Inl IndexError, [])"
  by (simp add: show_phone_def show_phone_body_def show_birthday_def show_birthday_body_def
      handle_errors_def)

section \<open>Birthdays\<close>

lemma zfill_1: "zfill 1 n = [digit_char (n mod 10)]"
  by (simp add: eval_nat_numeral)

lemma zfill_2: "zfill 2 n = [digit_char (n div 10 mod 10), digit_char (n mod 10)]"
  by (simp add: eval_nat_numeral)

lemma zfill_4:
  "zfill 4 n = [digit_char (n div 1000 mod 10), digit_char (n div 100 mod 10),
                digit_char (n div 10 mod 10), digit_char (n mod 10)]"
proof -
  have "n div 10 div 10 = n div 100" "n div 10 div 10 div 10 = n div 1000"
    by (simp_all add: zdiv_zmult2_eq)
  then show ?thesis by (simp add: eval_nat_numeral)
qed

lemma digit_char_val: "ascii_digit c \<Longrightarrow> digit_char (digit_val c) = c"
proof -
  assume "ascii_digit c"
  then have "48 \<le> (of_char c :: nat)"
    by (simp add: ascii_digit_def)
  then have "48 + nat (int (of_char c) - 48) = (of_char c :: nat)"
    by arith
  then show ?thesis by (simp add: digit_char_def digit_val_def)
qed

lemma mod_10: "0 \<le> r \<Longrightarrow> r \<le> 9 \<Longrightarrow> (10 * k + r) mod 10 = (r::int)"
  by simp

lemma digit_val_range: "ascii_digit c \<Longrightarrow> 0 \<le> digit_val c \<and> digit_val c \<le> 9"
  by (auto simp: ascii_digit_def digit_val_def)

lemma nonzero_digit_ascii: "nonzero_digit c \<Longrightarrow> ascii_digit c \<and> 1 \<le> digit_val c"
  by (auto simp: ascii_digit_def nonzero_digit_def digit_val_def)

lemma digit_char_mod: "ascii_digit a \<Longrightarrow> digit_char (digit_val a mod 10) = a"
  using digit_val_range[of a] by (simp add: digit_char_val)

lemma one_digit: "ascii_digit a \<Longrightarrow> zfill 1 (digit_val a) = [a]"
  by (simp add: zfill_1 digit_char_mod)

lemma two_digits:
  assumes "ascii_digit a" "ascii_digit b"
  shows "zfill 2 (10 * digit_val a + digit_val b) = [a, b]"
proof -
  from digit_val_range[OF assms(1)] digit_val_range[OF assms(2)]
  have "(10 * digit_val a + digit_val b) div 10 mod 10 = digit_val a"
    and "(10 * digit_val a + digit_val b) mod 10 = digit_val b"
    by auto
  then show ?thesis by (simp add: zfill_2 digit_char_val assms)
qed

lemma zfill_snoc:
  assumes "0 \<le> r" "r \<le> 9"
  shows "zfill (Suc w) (10 * k + r) = zfill w k @ [digit_char r]"
proof -
  have "(10 * k + r) div 10 = k"
    using assms by (intro Euclidean_Rings.int_div_pos_eq[where r = r]) simp_all
  moreover have "(10 * k + r) mod 10 = r"
    using assms by (rule mod_10)
  ultimately show ?thesis by simp
qed

lemma four_digits:
  assumes "ascii_digit a" "ascii_digit b" "ascii_digit c" "ascii_digit d"
  shows "zfill 4 (1000 * digit_val a + 100 * digit_val b + 10 * digit_val c + digit_val d) = [a, b, c, d]"
proof -
  note r = digit_val_range[OF assms(1)] digit_val_range[OF assms(2)]
    digit_val_range[OF assms(3)] digit_val_range[OF assms(4)]
  have h: "1000 * digit_val a + 100 * digit_val b + 10 * digit_val c + digit_val d =
      10 * (10 * (10 * (10 * 0 + digit_val a) + digit_val b) + digit_val c) + digit_val d"
    by simp
  have 4: "(4::nat) = Suc (Suc (Suc (Suc 0)))"
    by simp
  show ?thesis
    unfolding h 4 using r
    by (simp only: zfill_snoc zfill.simps(1) digit_char_val assms append_Nil append_Cons)
qed

lemma zero_digit: "ascii_digit CHR ''0''" "digit_val CHR ''0'' = 0"
  by (simp_all add: ascii_digit_def digit_val_def)

lemma re_lit_sound: "r \<in> set (re_lit c s) \<Longrightarrow> s = c # r"
  by (auto simp: re_lit_def split: list.splits if_splits)

lemma re_Y_sound: "(y, r) \<in> set (re_Y s) \<Longrightarrow> s = zfill 4 y @ r"
proof -
  assume "(y, r) \<in> set (re_Y s)"
  then obtain a b c d where s: "s = a # b # c # d # r"
    and v: "ascii_digit a" "ascii_digit b" "ascii_digit c" "ascii_digit d"
    and y: "y = 1000 * digit_val a + 100 * digit_val b + 10 * digit_val c + digit_val d"
    by (auto simp: re_Y_def split: list.splits if_splits)
  show ?thesis unfolding s y by (simp only: four_digits[OF v] append_Cons append_Nil)
qed

lemma leading_digit:
  "ascii_digit b \<Longrightarrow> zfill 2 (digit_val b) = [CHR ''0'', b]"
  "ascii_digit b \<Longrightarrow> zfill 2 (10 + digit_val b) = [CHR ''1'', b]"
  "ascii_digit b \<Longrightarrow> zfill 2 (20 + digit_val b) = [CHR ''2'', b]"
  "ascii_digit b \<Longrightarrow> zfill 2 (30 + digit_val b) = [CHR ''3'', b]"
proof -
  have d: "ascii_digit CHR ''0''" "ascii_digit CHR ''1''" "ascii_digit CHR ''2''" "ascii_digit CHR ''3''"
    "digit_val CHR ''0'' = 0" "digit_val CHR ''1'' = 1" "digit_val CHR ''2'' = 2" "digit_val CHR ''3'' = 3"
    by (simp_all add: ascii_digit_def digit_val_def)
  assume b: "ascii_digit b"
  from two_digits[OF d(1) b] show "zfill 2 (digit_val b) = [CHR ''0'', b]" by (simp add: d)
  from two_digits[OF d(2) b] show "zfill 2 (10 + digit_val b) = [CHR ''1'', b]" by (simp add: d)
  from two_digits[OF d(3) b] show "zfill 2 (20 + digit_val b) = [CHR ''2'', b]" by (simp add: d)
  from two_digits[OF d(4) b] show "zfill 2 (30 + digit_val b) = [CHR ''3'', b]" by (simp add: d)
qed

lemma small_digits: "ascii_digit CHR ''0''" "ascii_digit CHR ''1''" "ascii_digit CHR ''2''"
  "digit_val CHR ''1'' = 1" "digit_val CHR ''2'' = 2"
  by (simp_all add: ascii_digit_def digit_val_def)

lemma re_m_cases:
  assumes "(m, r) \<in> set (re_m s)"
  shows "(\<exists>b. s = CHR ''1'' # b # r \<and> (b = CHR ''0'' \<or> b = CHR ''1'' \<or> b = CHR ''2'') \<and>
              m = 10 + digit_val b) \<or>
         (\<exists>b. s = CHR ''0'' # b # r \<and> nonzero_digit b \<and> m = digit_val b) \<or>
         (\<exists>a. s = a # r \<and> nonzero_digit a \<and> m = digit_val a)"
proof (cases s)
  case Nil
  with assms show ?thesis by (simp add: re_m_def)
next
  case (Cons a t)
  show ?thesis
  proof (cases t)
    case Nil
    with Cons assms show ?thesis by (simp add: re_m_def split: if_splits)
  next
    case (Cons b r')
    with \<open>s = a # t\<close> assms show ?thesis
      by (simp add: re_m_def split: if_splits) (elim disjE conjE; simp)
  qed
qed

lemma re_m_sound:
  assumes "(m, r) \<in> set (re_m s)"
  shows "\<exists>tok \<in> set (month_tokens m). s = tok @ r"
proof -
  from re_m_cases[OF assms] consider
      (ten) b where "s = CHR ''1'' # b # r" "ascii_digit b" "m = 10 + digit_val b"
    | (pad) b where "s = CHR ''0'' # b # r" "nonzero_digit b" "m = digit_val b"
    | (one) a where "s = a # r" "nonzero_digit a" "m = digit_val a"
    using small_digits by blast
  then show ?thesis
  proof cases
    case ten
    then show ?thesis by (simp add: month_tokens_def leading_digit)
  next
    case pad
    with nonzero_digit_ascii[OF pad(2)] show ?thesis by (simp add: month_tokens_def leading_digit)
  next
    case one
    with nonzero_digit_ascii[OF one(2)] digit_val_range[of a] show ?thesis
      by (simp add: month_tokens_def one_digit digit_char_val)
  qed
qed

lemma re_d_cases:
  assumes "(d, r) \<in> set (re_d s)"
  shows "(\<exists>b. s = CHR ''3'' # b # r \<and> (b = CHR ''0'' \<or> b = CHR ''1'') \<and> d = 30 + digit_val b) \<or>
         (\<exists>a b. s = a # b # r \<and> (a = CHR ''1'' \<or> a = CHR ''2'') \<and> ascii_digit b \<and>
                d = 10 * digit_val a + digit_val b) \<or>
         (\<exists>b. s = CHR ''0'' # b # r \<and> nonzero_digit b \<and> d = digit_val b) \<or>
         (\<exists>a. s = a # r \<and> nonzero_digit a \<and> d = digit_val a) \<or>
         (\<exists>b. s = CHR '' '' # b # r \<and> nonzero_digit b \<and> d = digit_val b)"
proof (cases s)
  case Nil
  with assms show ?thesis by (simp add: re_d_def)
next
  case (Cons a t)
  show ?thesis
  proof (cases t)
    case Nil
    with Cons assms show ?thesis by (simp add: re_d_def split: if_splits)
  next
    case (Cons b r')
    with \<open>s = a # t\<close> assms show ?thesis
      by (simp add: re_d_def split: if_splits) (elim disjE conjE; simp)
  qed
qed

lemma re_d_sound:
  assumes "(d, r) \<in> set (re_d s)"
  shows "\<exists>tok \<in> set (day_tokens d). s = tok @ r"
proof -
  from re_d_cases[OF assms] consider
      (thirty) b where "s = CHR ''3'' # b # r" "ascii_digit b" "d = 30 + digit_val b"
    | (ten) b where "s = CHR ''1'' # b # r" "ascii_digit b" "d = 10 + digit_val b"
    | (twenty) b where "s = CHR ''2'' # b # r" "ascii_digit b" "d = 20 + digit_val b"
    | (pad) b where "s = CHR ''0'' # b # r" "nonzero_digit b" "d = digit_val b"
    | (one) a where "s = a # r" "nonzero_digit a" "d = digit_val a"
    | (space) b where "s = CHR '' '' # b # r" "nonzero_digit b" "d = digit_val b"
    using small_digits by (elim disjE exE conjE) simp_all
  then show ?thesis
  proof cases
    case thirty
    then show ?thesis by (simp add: day_tokens_def leading_digit)
  next
    case ten
    then show ?thesis by (simp add: day_tokens_def leading_digit)
  next
    case twenty
    then show ?thesis by (simp add: day_tokens_def leading_digit)
  next
    case pad
    with nonzero_digit_ascii[OF pad(2)] show ?thesis by (simp add: day_tokens_def leading_digit)
  next
    case one
    with nonzero_digit_ascii[OF one(2)] digit_val_range[of a] show ?thesis
      by (simp add: day_tokens_def one_digit digit_char_val)
  next
    case space
    with nonzero_digit_ascii[OF space(2)] digit_val_range[of b] show ?thesis
      by (simp add: day_tokens_def one_digit digit_char_val)
  qed
qed

lemma re_d_m_Y_sound:
  assumes "((d, m, y), r) \<in> set (re_d_m_Y s)"
  shows "\<exists>dt \<in> set (day_tokens d). \<exists>mt \<in> set (month_tokens m). s = dt @ ''.'' @ mt @ ''.'' @ zfill 4 y @ r"
proof -
  from assms obtain r1 r2 r3 r4 where
    1: "(d, r1) \<in> set (re_d s)" and 2: "r2 \<in> set (re_lit CHR ''.'' r1)" and
    3: "(m, r3) \<in> set (re_m r2)" and 4: "r4 \<in> set (re_lit CHR ''.'' r3)" and
    5: "(y, r) \<in> set (re_Y r4)"
    by (auto simp: re_d_m_Y_def)
  from re_d_sound[OF 1] obtain dt where dt: "dt \<in> set (day_tokens d)" "s = dt @ r1" by auto
  from re_m_sound[OF 3] obtain mt where mt: "mt \<in> set (month_tokens m)" "r2 = mt @ r3" by auto
  from dt(2) re_lit_sound[OF 2] mt(2) re_lit_sound[OF 4] re_Y_sound[OF 5]
  have "s = dt @ ''.'' @ mt @ ''.'' @ zfill 4 y @ r" by simp
  with dt(1) mt(1) show ?thesis by blast
qed

lemma strptime_sound:
  assumes "strptime_d_m_Y s = Some dt"
  shows "valid_date dt \<and> hour dt = 0 \<and> minute dt = 0 \<and> second dt = 0 \<and> microsecond dt = 0 \<and>
         s \<in> set (accepted_forms dt)"
proof -
  from assms obtain d m y rest where
    h: "re_d_m_Y s = ((d, m, y), []) # rest" and c: "check_date_fields y m d = None" and
    dt: "dt = \<lparr>year = y, month = m, day = d, hour = 0, minute = 0, second = 0, microsecond = 0\<rparr>"
    by (auto simp: strptime_d_m_Y_def split: list.splits if_splits option.splits)
  from h have "((d, m, y), []) \<in> set (re_d_m_Y s)" by simp
  from re_d_m_Y_sound[OF this] have "s \<in> set (accepted_forms dt)"
    unfolding dt by (auto simp: accepted_forms_def)
  with c dt show ?thesis by (simp add: valid_date_def)
qed

lemma digit_val_char: "0 \<le> k \<Longrightarrow> k \<le> 9 \<Longrightarrow> ascii_digit (digit_char k) \<and> digit_val (digit_char k) = k"
proof -
  assume "0 \<le> k" "k \<le> 9"
  then have "k = 0 \<or> k = 1 \<or> k = 2 \<or> k = 3 \<or> k = 4 \<or> k = 5 \<or> k = 6 \<or> k = 7 \<or> k = 8 \<or> k = 9"
    by arith
  then show ?thesis
    by (elim disjE) (simp_all add: digit_char_numerals ascii_digit_def digit_val_def)
qed

lemma re_Y_zfill:
  assumes "0 \<le> y" "y \<le> 9999"
  shows "re_Y (zfill 4 y @ r) = [(y, r)]"
proof -
  define q1 where "q1 = y div 10"
  define q2 where "q2 = y div 100"
  define q3 where "q3 = y div 1000"
  have e1: "y = 10 * q1 + y mod 10" by (simp add: q1_def)
  have "q1 div 10 = q2" by (simp add: q1_def q2_def zdiv_zmult2_eq)
  then have e2: "q1 = 10 * q2 + q1 mod 10" by (metis mult_div_mod_eq)
  have "q2 div 10 = q3" by (simp add: q2_def q3_def zdiv_zmult2_eq)
  then have e3: "q2 = 10 * q3 + q2 mod 10" by (metis mult_div_mod_eq)
  have m1: "y div 10 mod 10 = q1 mod 10" by (simp add: q1_def)
  have m2: "y div 100 mod 10 = q2 mod 10" by (simp add: q2_def)
  have q3: "0 \<le> q3" "q3 \<le> 9" using assms by (simp_all add: q3_def)
  then have m3: "y div 1000 mod 10 = q3" by (simp add: q3_def)
  have r: "0 \<le> y mod 10 \<and> y mod 10 \<le> 9" "0 \<le> q1 mod 10 \<and> q1 mod 10 \<le> 9"
    "0 \<le> q2 mod 10 \<and> q2 mod 10 \<le> 9"
    by simp_all
  have v: "1000 * q3 + 100 * (q2 mod 10) + 10 * (q1 mod 10) + y mod 10 = y"
    using e1 e2 e3 by linarith
  have z: "zfill 4 y = [digit_char q3, digit_char (q2 mod 10), digit_char (q1 mod 10), digit_char (y mod 10)]"
    by (simp only: zfill_4 m1 m2 m3)
  show ?thesis
    unfolding z using digit_val_char[OF q3] digit_val_char[of "q2 mod 10"] digit_val_char[of "q1 mod 10"]
      digit_val_char[of "y mod 10"] r v
    by (simp add: re_Y_def)
qed

lemma day_cases:
  "1 \<le> (d::int) \<Longrightarrow> d \<le> 31 \<Longrightarrow>
   d = 1 \<or> d = 2 \<or> d = 3 \<or> d = 4 \<or> d = 5 \<or> d = 6 \<or> d = 7 \<or> d = 8 \<or> d = 9 \<or> d = 10 \<or>
   d = 11 \<or> d = 12 \<or> d = 13 \<or> d = 14 \<or> d = 15 \<or> d = 16 \<or> d = 17 \<or> d = 18 \<or> d = 19 \<or>
   d = 20 \<or> d = 21 \<or> d = 22 \<or> d = 23 \<or> d = 24 \<or> d = 25 \<or> d = 26 \<or> d = 27 \<or> d = 28 \<or>
   d = 29 \<or> d = 30 \<or> d = 31"
  by arith

lemma char_tests:
  "ascii_digit CHR ''0''" "ascii_digit CHR ''1''" "ascii_digit CHR ''2''" "ascii_digit CHR ''3''"
  "ascii_digit CHR ''4''" "ascii_digit CHR ''5''" "ascii_digit CHR ''6''" "ascii_digit CHR ''7''"
  "ascii_digit CHR ''8''" "ascii_digit CHR ''9''"
  "\<not> nonzero_digit CHR ''0''" "nonzero_digit CHR ''1''" "nonzero_digit CHR ''2''"
  "nonzero_digit CHR ''3''" "nonzero_digit CHR ''4''" "nonzero_digit CHR ''5''"
  "nonzero_digit CHR ''6''" "nonzero_digit CHR ''7''" "nonzero_digit CHR ''8''"
  "nonzero_digit CHR ''9''"
  "digit_val CHR ''0'' = 0" "digit_val CHR ''1'' = 1" "digit_val CHR ''2'' = 2"
  "digit_val CHR ''3'' = 3" "digit_val CHR ''4'' = 4" "digit_val CHR ''5'' = 5"
  "digit_val CHR ''6'' = 6" "digit_val CHR ''7'' = 7" "digit_val CHR ''8'' = 8"
  "digit_val CHR ''9'' = 9"
  by (simp_all add: ascii_digit_def nonzero_digit_def digit_val_def)

lemma re_d_zfill:
  assumes "1 \<le> d" "d \<le> 31"
  shows "\<exists>xs. re_d (zfill 2 d @ CHR ''.'' # r) = (d, CHR ''.'' # r) # xs"
  using day_cases[OF assms]
  by (elim disjE) (simp_all add: zfill_2 digit_char_numerals re_d_def char_tests)

lemma re_m_zfill:
  assumes "1 \<le> m" "m \<le> 12"
  shows "\<exists>xs. re_m (zfill 2 m @ CHR ''.'' # r) = (m, CHR ''.'' # r) # xs"
  using month_cases[OF assms]
  by (elim disjE) (simp_all add: zfill_2 digit_char_numerals re_m_def char_tests)

lemma re_d_m_Y_first:
  assumes "re_d s = (d, CHR ''.'' # r2) # xs" "re_m r2 = (m, CHR ''.'' # r4) # ys" "re_Y r4 = [(y, r5)]"
  shows "\<exists>zs. re_d_m_Y s = ((d, m, y), r5) # zs"
  using assms by (simp add: re_d_m_Y_def re_lit_def)

lemma strptime_complete:
  assumes "check_date_fields y m d = None"
  shows "strptime_d_m_Y (zfill 2 d @ ''.'' @ zfill 2 m @ ''.'' @ zfill 4 y) =
     Some \<lparr>year = y, month = m, day = d, hour = 0, minute = 0, second = 0, microsecond = 0\<rparr>"
proof -
  from assms have y: "1 \<le> y" "y \<le> 9999" and m: "1 \<le> m" "m \<le> 12"
    and d: "1 \<le> d" "d \<le> days_in_month y m"
    by (auto simp: check_date_fields_def split: if_splits)
  have "days_in_month y m \<le> 31"
    using month_cases[OF m] by (elim disjE) (simp_all add: days_in_month_def DAYS_IN_MONTH_def)
  with d have d31: "d \<le> 31" by simp
  from re_d_zfill[OF d(1) d31] obtain xs where
    1: "re_d (zfill 2 d @ CHR ''.'' # (zfill 2 m @ CHR ''.'' # zfill 4 y)) =
          (d, CHR ''.'' # (zfill 2 m @ CHR ''.'' # zfill 4 y)) # xs"
    by blast
  from re_m_zfill[OF m] obtain ys where
    2: "re_m (zfill 2 m @ CHR ''.'' # zfill 4 y) = (m, CHR ''.'' # zfill 4 y) # ys"
    by blast
  have 3: "re_Y (zfill 4 y) = [(y, [])]"
    using re_Y_zfill[of y "[]"] y by simp
  from re_d_m_Y_first[OF 1 2 3] obtain zs where
    "re_d_m_Y (zfill 2 d @ CHR ''.'' # (zfill 2 m @ CHR ''.'' # zfill 4 y)) = ((d, m, y), []) # zs"
    by blast
  then show ?thesis using assms by (simp add: strptime_d_m_Y_def)
qed

lemma str_nat_step: "\<not> n < 10 \<Longrightarrow> str_nat n = str_nat (n div 10) @ [digit_char (int (n mod 10))]"
  by (subst str_nat.simps) simp

lemma str_nat_last: "n < 10 \<Longrightarrow> str_nat n = [digit_char (int n)]"
  by (subst str_nat.simps) simp

lemma str_nat_four:
  assumes "1000 \<le> y" "y \<le> 9999"
  shows "str_nat (nat y) = zfill 4 y"
proof -
  define n where "n = nat y"
  have n: "1000 \<le> n" "n \<le> 9999" "y = int n" using assms by (simp_all add: n_def)
  have e: "n div 10 div 10 = n div 100" "n div 10 div 10 div 10 = n div 1000"
    by (simp_all add: div_mult2_eq)
  have g: "\<not> n < 10" "\<not> n div 10 < 10" "\<not> n div 100 < 10" "n div 1000 < 10"
    using n by simp_all
  have "str_nat n = str_nat (n div 10) @ [digit_char (int (n mod 10))]"
    by (rule str_nat_step[OF g(1)])
  also have "str_nat (n div 10) = str_nat (n div 100) @ [digit_char (int (n div 10 mod 10))]"
    using str_nat_step[OF g(2)] by (simp only: e)
  also have "str_nat (n div 100) = str_nat (n div 1000) @ [digit_char (int (n div 100 mod 10))]"
    using str_nat_step[OF g(3)] e by (simp add: div_mult2_eq)
  also have "str_nat (n div 1000) = [digit_char (int (n div 1000))]"
    by (rule str_nat_last[OF g(4)])
  finally have s: "str_nat n =
      [digit_char (int (n div 1000)), digit_char (int (n div 100 mod 10)),
       digit_char (int (n div 10 mod 10)), digit_char (int (n mod 10))]"
    by simp
  have "int n div 1000 = int (n div 1000)" by (simp add: zdiv_int)
  with g(4) have f: "int n div 1000 mod 10 = int n div 1000" by simp
  have "zfill 4 y =
      [digit_char (int (n div 1000)), digit_char (int (n div 100 mod 10)),
       digit_char (int (n div 10 mod 10)), digit_char (int (n mod 10))]"
    unfolding zfill_4 n(3) by (simp add: zdiv_int zmod_int f)
  with s show ?thesis by (simp add: n_def)
qed

lemma strftime_d_m_Y:
  "strftime norm ''%d.%m.%Y'' d =
     zfill 2 (day d) @ ''.'' @ zfill 2 (month d) @ ''.'' @
     (if norm then zfill 4 (year d) else str_nat (nat (year d)))"
  by simp

lemma Birthday_init_sound:
  assumes "Birthday_init s = Inr b"
  shows "valid_date (fvalue b) \<and> hour (fvalue b) = 0 \<and> minute (fvalue b) = 0 \<and>
         second (fvalue b) = 0 \<and> microsecond (fvalue b) = 0 \<and> s \<in> set (accepted_forms (fvalue b))"
proof -
  from assms have "strptime_d_m_Y s = Some (fvalue b)"
    by (auto simp: Birthday_init_def split: option.splits)
  then show ?thesis by (rule strptime_sound)
qed

lemma show_birthday_known:
  "find_book book n = Some r \<Longrightarrow> birthday r = Some b \<Longrightarrow>
   show_birthday norm (n # rest) book = (Inr (strftime norm ''%d.%m.%Y'' (fvalue b)), book)"
  by (simp add: show_birthday_def show_birthday_body_def handle_errors_def del: strftime.simps)

text \<open>
  C5, as the code has it. For every date of the calendar (years 1 to 9999) the string
  with two digits for the day, two for the month and four for the year builds a
  \<open>Birthday\<close> holding that date at midnight, and \<open>show-birthday\<close>, which renders it with
  \<open>strftime("%d.%m.%Y")\<close>, gives the same string back (for years below 1000 where the
  platform pads \<open>%Y\<close>). Whatever string builds a \<open>Birthday\<close> is one of the forms of a
  date of the calendar: day and month may also come without the leading zero, the day
  also with a space for it. Every other string raises the \<open>ValueError\<close> of the class.
\<close>

theorem Birthday_roundtrip:
  "(check_date_fields y m d = None \<longrightarrow>
      Birthday_init (zfill 2 d @ ''.'' @ zfill 2 m @ ''.'' @ zfill 4 y) =
        Inr \<lparr>fvalue = \<lparr>year = y, month = m, day = d,
                       hour = 0, minute = 0, second = 0, microsecond = 0\<rparr>\<rparr> \<and>
      (norm \<or> 1000 \<le> y \<longrightarrow>
         strftime norm ''%d.%m.%Y''
           \<lparr>year = y, month = m, day = d, hour = 0, minute = 0, second = 0, microsecond = 0\<rparr> =
         zfill 2 d @ ''.'' @ zfill 2 m @ ''.'' @ zfill 4 y)) \<and>
   (Birthday_init s = Inr b \<longrightarrow>
      valid_date (fvalue b) \<and> hour (fvalue b) = 0 \<and> minute (fvalue b) = 0 \<and>
      second (fvalue b) = 0 \<and> microsecond (fvalue b) = 0 \<and> s \<in> set (accepted_forms (fvalue b))) \<and>
   ((\<exists>b. Birthday_init s = Inr b) \<or>
      Birthday_init s = Inl (ValueError ''Invalid date format. Use DD.MM.YYYY'')) \<and>
   (find_book book n = Some r \<and> birthday r = Some b \<longrightarrow>
      show_birthday norm (n # rest) book = (Inr (strftime norm ''%d.%m.%Y'' (fvalue b)), book))"
proof (intro conjI impI)
  assume v: "check_date_fields y m d = None"
  show "Birthday_init (zfill 2 d @ ''.'' @ zfill 2 m @ ''.'' @ zfill 4 y) =
        Inr \<lparr>fvalue = \<lparr>year = y, month = m, day = d,
                       hour = 0, minute = 0, second = 0, microsecond = 0\<rparr>\<rparr>"
    by (simp only: Birthday_init_def strptime_complete[OF v] option.case)
  assume p: "norm \<or> 1000 \<le> y"
  from v have "y \<le> 9999" by (auto simp: check_date_fields_def split: if_splits)
  with p have "(if norm then zfill 4 y else str_nat (nat y)) = zfill 4 y"
    by (auto simp: str_nat_four)
  then show "strftime norm ''%d.%m.%Y''
           \<lparr>year = y, month = m, day = d, hour = 0, minute = 0, second = 0, microsecond = 0\<rparr> =
         zfill 2 d @ ''.'' @ zfill 2 m @ ''.'' @ zfill 4 y"
    unfolding strftime_d_m_Y by (simp only: date.simps)
next
  assume "Birthday_init s = Inr b"
  then have a: "valid_date (fvalue b) \<and> hour (fvalue b) = 0 \<and> minute (fvalue b) = 0 \<and>
      second (fvalue b) = 0 \<and> microsecond (fvalue b) = 0 \<and> s \<in> set (accepted_forms (fvalue b))"
    by (rule Birthday_init_sound)
  from a show "valid_date (fvalue b)" by simp
  from a show "hour (fvalue b) = 0" by simp
  from a show "minute (fvalue b) = 0" by simp
  from a show "second (fvalue b) = 0" by simp
  from a show "microsecond (fvalue b) = 0" by simp
  from a show "s \<in> set (accepted_forms (fvalue b))" by simp
next
  show "(\<exists>b. Birthday_init s = Inr b) \<or>
      Birthday_init s = Inl (ValueError ''Invalid date format. Use DD.MM.YYYY'')"
    by (simp add: Birthday_init_def split: option.splits)
next
  assume "find_book book n = Some r \<and> birthday r = Some b"
  then show "show_birthday norm (n # rest) book =
      (Inr (strftime norm ''%d.%m.%Y'' (fvalue b)), book)"
    using show_birthday_known by blast
qed

theorem Birthday_roundtrip_witness:
  "Birthday_init ''15.06.1990'' =
     Inr \<lparr>fvalue = \<lparr>year = 1990, month = 6, day = 15,
                    hour = 0, minute = 0, second = 0, microsecond = 0\<rparr>\<rparr> \<and>
   strftime False ''%d.%m.%Y''
     \<lparr>year = 1990, month = 6, day = 15, hour = 0, minute = 0, second = 0, microsecond = 0\<rparr> =
     ''15.06.1990'' \<and>
   ''5.6.1990'' \<in> set (accepted_forms
     \<lparr>year = 1990, month = 6, day = 5, hour = 0, minute = 0, second = 0, microsecond = 0\<rparr>)"
proof -
  let ?b = "\<lparr>fvalue = \<lparr>year = 1990, month = 6, day = 5,
                        hour = 0, minute = 0, second = 0, microsecond = 0\<rparr>\<rparr>"
  note t = Birthday_roundtrip [where y = 1990 and m = 6 and d = 15 and norm = False
             and s = "''5.6.1990''" and b = ?b]
  have v: "check_date_fields 1990 6 15 = None"
    by (simp add: check_date_fields_def days_in_month_def DAYS_IN_MONTH_def)
  have z: "zfill 2 15 @ ''.'' @ zfill 2 6 @ ''.'' @ zfill 4 1990 = ''15.06.1990''"
    by code_simp
  have y: "False \<or> (1000::int) \<le> 1990"
    by simp
  have i: "Birthday_init ''5.6.1990'' = Inr ?b"
    by code_simp
  note c1 = mp [OF conjunct1 [OF t] v]
  from conjunct1 [OF c1] have a: "Birthday_init ''15.06.1990'' =
     Inr \<lparr>fvalue = \<lparr>year = 1990, month = 6, day = 15,
                    hour = 0, minute = 0, second = 0, microsecond = 0\<rparr>\<rparr>"
    by (simp only: z)
  from mp [OF conjunct2 [OF c1] y] have b: "strftime False ''%d.%m.%Y''
     \<lparr>year = 1990, month = 6, day = 15, hour = 0, minute = 0, second = 0, microsecond = 0\<rparr> =
     ''15.06.1990''"
    by (simp only: z)
  from mp [OF conjunct1 [OF conjunct2 [OF t]] i]
  have c: "''5.6.1990'' \<in> set (accepted_forms
     \<lparr>year = 1990, month = 6, day = 5, hour = 0, minute = 0, second = 0, microsecond = 0\<rparr>)"
    by simp
  from a b c show ?thesis by (intro conjI)
qed

text \<open>
  C5 as stated fails twice. \<open>5.6.1990\<close> is not in the form DD.MM.YYYY, yet it builds the
  birthday of 5 June 1990. And \<open>str\<close> of the birthday built from \<open>15.06.1990\<close>, which is
  \<open>Field.__str__\<close>, is the \<open>str\<close> of the stored \<open>datetime\<close>, not the string it was built
  from.
\<close>

theorem Birthday_counterexample:
  "Birthday_init ''5.6.1990'' =
     Inr \<lparr>fvalue = \<lparr>year = 1990, month = 6, day = 5,
                    hour = 0, minute = 0, second = 0, microsecond = 0\<rparr>\<rparr> \<and>
   Birthday_init ''15.06.1990'' =
     Inr \<lparr>fvalue = \<lparr>year = 1990, month = 6, day = 15,
                    hour = 0, minute = 0, second = 0, microsecond = 0\<rparr>\<rparr> \<and>
   Birthday_str \<lparr>fvalue = \<lparr>year = 1990, month = 6, day = 15,
                            hour = 0, minute = 0, second = 0, microsecond = 0\<rparr>\<rparr> =
     ''1990-06-15 00:00:00''"
  by code_simp

end
